theory Spec2Isabelle
  imports Main "HOL-Library.Word" "HOL-Library.Signed_Division"
begin

unbundle bit_operations_syntax

section \<open>Indicators and characters\<close>

text \<open>
  The constants of indicators.h, the process status indicators of
  \<^verbatim>\<open>enum proc_stat\<close> and the string check indicators of \<^verbatim>\<open>enum str_check\<close>. All
  have different values, and the code only ever compares them with each other.
\<close>

datatype indicator =
    ALL_GOOD | END_OF_LINE | UNFINISHED | INP_ERROR | TECHL_ERR | UNKNOWN_SPEC | ALLOC_ERR
  | DUP_ERR | NULL_ENC | NUM_LEN_ERR | PNT_ERR | FILE_OERATION_ERR
  | VALID | INVALID_CHR | ALPHA_EXP | ALNUM_EXP | INT_EXP | NON_NUM | STR_TOO_LONG
  | STR_EMPTY | EOF_ENC | PRFX_EXP | SFX_EXP

text \<open>The \<^verbatim>\<open>ctype.h\<close> classes in the C locale, on the byte value of a character.\<close>

definition isdigit :: "char \<Rightarrow> bool" where
  "isdigit c = (48 \<le> (of_char c :: nat) \<and> (of_char c :: nat) \<le> 57)"

definition isalpha :: "char \<Rightarrow> bool" where
  "isalpha c = ((65 \<le> (of_char c :: nat) \<and> (of_char c :: nat) \<le> 90)
              \<or> (97 \<le> (of_char c :: nat) \<and> (of_char c :: nat) \<le> 122))"

definition isalnum :: "char \<Rightarrow> bool" where
  "isalnum c = (isalpha c \<or> isdigit c)"

definition isspace :: "char \<Rightarrow> bool" where
  "isspace c = ((of_char c :: nat) = 32 \<or> (9 \<le> (of_char c :: nat) \<and> (of_char c :: nat) \<le> 13))"

definition isprint :: "char \<Rightarrow> bool" where
  "isprint c = (32 \<le> (of_char c :: nat) \<and> (of_char c :: nat) \<le> 126)"

section \<open>Core design (as\_core\_design.h, as\_core\_design.c)\<close>

text \<open>
  \<^verbatim>\<open>typedef signed long int Word\<close> and \<^verbatim>\<open>typedef unsigned long int Address\<close>, on a
  platform where \<^verbatim>\<open>long\<close> has 64 bits. A word is read as signed with \<^const>\<open>sint\<close>.
\<close>

type_synonym Word = "64 word"
type_synonym Address = "64 word"

definition INITIAL_LOAD_ADSS :: Address where "INITIAL_LOAD_ADSS = 100"
definition WORD_MASK :: Word where "WORD_MASK = 0xffffff"
definition NON_ARE :: Word where "NON_ARE = 0xfffff8"
definition ARE :: Word where "ARE = 0x000007"
definition FUNCT :: Word where "FUNCT = 0x0000f8"
definition DEST_REG :: Word where "DEST_REG = 0x000700"
definition DEST_ADSS :: Word where "DEST_ADSS = 0x001800"
definition SRC_REG :: Word where "SRC_REG = 0x00e000"
definition SRC_ADSS :: Word where "SRC_ADSS = 0x030000"
definition OPCODE :: Word where "OPCODE = 0xfc0000"

definition ARE_A_set :: Word where "ARE_A_set = 4"
definition ARE_R_set :: Word where "ARE_R_set = 2"
definition ARE_E_set :: Word where "ARE_E_set = 1"

definition MAX_SYMB_LEN :: nat where "MAX_SYMB_LEN = 31"
definition MAX_LINE_LEN :: nat where "MAX_LINE_LEN = 80"

record Symbol =
  name :: string
  rep_word :: Word
  is_extern :: bool
  is_entry :: bool
  is_data :: bool

text \<open>\<^verbatim>\<open>get_symb_adss\<close>: the replacement word, read as unsigned, shifted right by 3.\<close>

definition get_symb_adss :: "Symbol \<Rightarrow> Address" where
  "get_symb_adss symb = drop_bit 3 (rep_word symb)"

section \<open>Memory words (as\_mem\_words.h, as\_mem\_words.c)\<close>

text \<open>
  The macro \<^verbatim>\<open>set_word_field(field_mask, mem_word, set_val, st_bit)\<close>; the value it
  assigns to \<^verbatim>\<open>mem_word\<close> is returned.
\<close>

definition set_word_field :: "Word \<Rightarrow> Word \<Rightarrow> Word \<Rightarrow> nat \<Rightarrow> Word" where
  "set_word_field field_mask mem_word set_val st_bit =
     ((mem_word AND NOT field_mask) OR (push_bit st_bit set_val AND field_mask))"

text \<open>
  C's \<^verbatim>\<open>%\<close> on \<^verbatim>\<open>long\<close> truncates towards zero: the remainder has the sign of the
  dividend.
\<close>

definition c_rem :: "Word \<Rightarrow> Word \<Rightarrow> Word" where
  "c_rem a b = word_of_int (sint a smod sint b)"

definition long_to_s21b :: "Word \<Rightarrow> Word" where
  "long_to_s21b num = c_rem num 0x100000"

definition long_to_s24b :: "Word \<Rightarrow> Word" where
  "long_to_s24b num = c_rem num 0x800000"

definition char_to_word :: "char \<Rightarrow> Word" where
  "char_to_word ch = of_char ch"

definition hex_digits :: string where
  "hex_digits = ''0123456789abcdef''"

definition hex_digit_at :: "Word \<Rightarrow> nat \<Rightarrow> char" where
  "hex_digit_at mem_word shift_val =
     hex_digits ! unat (drop_bit shift_val (mem_word AND push_bit shift_val 0xf))"

text \<open>\<^verbatim>\<open>word_to_str\<close>: the loop runs \<^verbatim>\<open>shift_val\<close> from 20 down to 0 in steps of 4.\<close>

definition word_to_str :: "Word \<Rightarrow> string" where
  "word_to_str mem_word = map (hex_digit_at mem_word) [20, 16, 12, 8, 4, 0]"

text \<open>
  \<^verbatim>\<open>adss_to_str\<close>: \<^verbatim>\<open>ADSS_DEC_LEN\<close> = 7 digits, the least significant one written last;
  the first argument counts the digits still to write.
\<close>

fun adss_digits :: "nat \<Rightarrow> Address \<Rightarrow> string" where
  "adss_digits 0 adss = []"
| "adss_digits (Suc i) adss = adss_digits i (adss div 10) @ [char_of (48 + unat (adss mod 10))]"

definition adss_to_str :: "Address \<Rightarrow> string" where
  "adss_to_str adss = adss_digits 7 adss"

fun digits_to_long :: "string \<Rightarrow> Word \<Rightarrow> Word option" where
  "digits_to_long [] result = Some result"
| "digits_to_long (c # cs) result =
     (if \<not> isdigit c then None else digits_to_long cs (result * 10 + of_char c - 48))"

text \<open>
  \<^verbatim>\<open>str_to_long\<close>: \<open>Inl\<close> carries the error indicator, \<open>Inr\<close> the value stored in
  \<^verbatim>\<open>*res_ptr\<close> when \<^verbatim>\<open>ALL_GOOD\<close> is returned.
\<close>

definition str_to_long :: "string \<Rightarrow> indicator + Word" where
  "str_to_long str =
     (case str of
        [] \<Rightarrow> Inl STR_EMPTY
      | c # cs \<Rightarrow>
          if c = CHR ''-'' then
            (if cs = [] then Inl INT_EXP
             else case digits_to_long cs 0 of None \<Rightarrow> Inl INT_EXP | Some r \<Rightarrow> Inr (- r))
          else if c = CHR ''+'' then
            (if cs = [] then Inl INT_EXP
             else case digits_to_long cs 0 of None \<Rightarrow> Inl INT_EXP | Some r \<Rightarrow> Inr r)
          else
            (case digits_to_long str 0 of None \<Rightarrow> Inl INT_EXP | Some r \<Rightarrow> Inr r))"

text \<open>
  A \<^verbatim>\<open>WordList\<close> is the sequence of the \<^verbatim>\<open>data\<close> fields from \<^verbatim>\<open>head_ptr\<close> on; its
  \<^verbatim>\<open>size\<close> field counts the nodes. A \<^verbatim>\<open>WordList *\<close> that may be \<^verbatim>\<open>NULL\<close> is an
  option. The flag of \<^verbatim>\<open>word_list_add\<close> says whether \<^verbatim>\<open>malloc\<close> succeeds.
\<close>

type_synonym WordList = "Word list"

definition wl_size :: "WordList \<Rightarrow> Address" where
  "wl_size wlist = of_nat (length wlist)"

definition word_list_add :: "bool \<Rightarrow> Word \<Rightarrow> WordList option \<Rightarrow> indicator \<times> WordList option" where
  "word_list_add alloc_ok mem_word list_ptr =
     (case list_ptr of
        None \<Rightarrow> (NULL_ENC, None)
      | Some wlist \<Rightarrow>
          if \<not> alloc_ok then (ALLOC_ERR, Some wlist)
          else (ALL_GOOD, Some (wlist @ [mem_word])))"

text \<open>
  What a function writes to a stream is the string of the characters written.
  \<^verbatim>\<open>pnt_word_list\<close> writes a newline after every word but the last one.
\<close>

fun pnt_word_list :: "WordList \<Rightarrow> Address \<Rightarrow> string" where
  "pnt_word_list [] curr_adss = []"
| "pnt_word_list (w # ws) curr_adss =
     adss_to_str curr_adss @ '' '' @ word_to_str w @ (if ws \<noteq> [] then [CHR 0x0A] else [])
     @ pnt_word_list ws (curr_adss + 1)"

text \<open>An \<^verbatim>\<open>ExtList\<close>: the (name, address) nodes from \<^verbatim>\<open>head_ptr\<close> on.\<close>

type_synonym ExtList = "(string \<times> Address) list"

definition ext_list_add :: "bool \<Rightarrow> string \<Rightarrow> Address \<Rightarrow> ExtList option \<Rightarrow> indicator \<times> ExtList option" where
  "ext_list_add alloc_ok new_name new_adss list_ptr =
     (case list_ptr of
        None \<Rightarrow> (NULL_ENC, None)
      | Some elist \<Rightarrow>
          if \<not> alloc_ok then (ALLOC_ERR, Some elist)
          else (ALL_GOOD, Some ((new_name, new_adss) # elist)))"

fun pnt_ext_list :: "ExtList \<Rightarrow> string" where
  "pnt_ext_list [] = []"
| "pnt_ext_list ((ext_symb_name, adss) # es) =
     ext_symb_name @ '' '' @ adss_to_str adss @ (if es \<noteq> [] then [CHR 0x0A] else [])
     @ pnt_ext_list es"

text \<open>\<^verbatim>\<open>form_ext_file\<close>: the content of the file, \<open>None\<close> when no file is created.\<close>

definition form_ext_file :: "ExtList \<Rightarrow> string option" where
  "form_ext_file elist = (if elist \<noteq> [] then Some (pnt_ext_list elist) else None)"

section \<open>Symbol table (as\_symb\_table.h, as\_symb\_table.c)\<close>

text \<open>
  The table is an array of \<^verbatim>\<open>SYMBT_HSIZE\<close> = 58 chains; a chain is the list of the
  symbols of its nodes, the head first.
\<close>

definition SYMBT_HSIZE :: nat where "SYMBT_HSIZE = 58"

type_synonym SymbolTable = "nat \<Rightarrow> Symbol list"

definition intlz_symbt :: SymbolTable where
  "intlz_symbt = (\<lambda>i. [])"

text \<open>
  A \<^verbatim>\<open>char\<close> is signed here: converted to \<^verbatim>\<open>unsigned\<close>, a byte above 127 wraps around.
\<close>

definition char_to_unsigned :: "char \<Rightarrow> 32 word" where
  "char_to_unsigned c = (if (of_char c :: nat) < 128 then of_char c else of_char c - 256)"

fun symb_hash_loop :: "string \<Rightarrow> 32 word \<Rightarrow> 32 word" where
  "symb_hash_loop [] hashval = hashval"
| "symb_hash_loop (c # cs) hashval = symb_hash_loop cs (char_to_unsigned c + 31 * hashval)"

definition symb_hash :: "string \<Rightarrow> nat" where
  "symb_hash str = unat (symb_hash_loop str 0) mod SYMBT_HSIZE"

text \<open>
  \<^verbatim>\<open>symb_lookup\<close> returns a pointer to the first symbol of the chain with the name
  sought; the model returns that symbol.
\<close>

definition symb_lookup :: "SymbolTable \<Rightarrow> string \<Rightarrow> Symbol option" where
  "symb_lookup table str = find (\<lambda>symb. str = name symb) (table (symb_hash str))"

text \<open>The flag says whether both calls of \<^verbatim>\<open>malloc\<close> succeed.\<close>

definition symb_inst ::
  "bool \<Rightarrow> SymbolTable \<Rightarrow> string \<Rightarrow> Word \<Rightarrow> bool \<Rightarrow> bool \<Rightarrow> bool \<Rightarrow> indicator \<times> SymbolTable" where
  "symb_inst alloc_ok table nm rep_w is_ext is_ent is_dat =
     (if symb_lookup table nm \<noteq> None then (DUP_ERR, table)
      else if \<not> alloc_ok then (ALLOC_ERR, table)
      else
        let new_symb = \<lparr>name = nm, rep_word = rep_w, is_extern = is_ext,
                        is_entry = is_ent, is_data = is_dat\<rparr>;
            hash_val = symb_hash nm
        in (ALL_GOOD, table(hash_val := new_symb # table hash_val)))"

definition inc_data_symb :: "Address \<Rightarrow> Symbol \<Rightarrow> Symbol" where
  "inc_data_symb inc_val symb =
     (if is_data symb
      then symb\<lparr>rep_word := set_word_field NON_ARE (rep_word symb) (get_symb_adss symb + inc_val) 3\<rparr>
      else symb)"

definition inc_data :: "SymbolTable \<Rightarrow> Address \<Rightarrow> SymbolTable" where
  "inc_data table inc_val = (\<lambda>i. if i < SYMBT_HSIZE then map (inc_data_symb inc_val) (table i) else table i)"

text \<open>
  \<^verbatim>\<open>form_ent_file\<close>: the chains are scanned from index 0 to 57, each from its head.
  \<open>ent_symbols\<close> are the symbols with the entry flag in the order in which the two
  loops meet them; the first one is written as its name and its address, every
  other one after a newline (the flag is the variable \<^verbatim>\<open>first\<close>). The result is the
  content of the file, \<open>None\<close> when no file is created.
\<close>

definition ent_line :: "Symbol \<Rightarrow> string" where
  "ent_line symb = name symb @ '' '' @ adss_to_str (drop_bit 3 (rep_word symb))"

definition ent_symbols :: "SymbolTable \<Rightarrow> Symbol list" where
  "ent_symbols table = concat (map (\<lambda>i. filter is_entry (table i)) [0..<SYMBT_HSIZE])"

fun pnt_ent_symbols :: "bool \<Rightarrow> Symbol list \<Rightarrow> string" where
  "pnt_ent_symbols first [] = []"
| "pnt_ent_symbols first (symb # rest) =
     (if first then ent_line symb else CHR 0x0A # ent_line symb) @ pnt_ent_symbols False rest"

definition form_ent_file :: "SymbolTable \<Rightarrow> string option" where
  "form_ent_file table =
     (if ent_symbols table = [] then None else Some (pnt_ent_symbols True (ent_symbols table)))"

section \<open>Instruction table and name checks (as\_core\_design.c)\<close>

datatype adss_method = imediate_a | direct_a | relative_a | direct_reg_a

text \<open>The numeric value of an \<^verbatim>\<open>enum adss_method\<close> constant.\<close>

fun adss_num :: "adss_method \<Rightarrow> Word" where
  "adss_num imediate_a = 0"
| "adss_num direct_a = 1"
| "adss_num relative_a = 2"
| "adss_num direct_reg_a = 3"

record Instruction =
  op_name :: string
  op_code :: nat
  funct :: nat
  opnd_num :: nat
  src_imed :: bool
  src_drct :: bool
  src_rltv :: bool
  src_reg :: bool
  des_imed :: bool
  des_drct :: bool
  des_rltv :: bool
  des_reg :: bool

definition mk_inst ::
  "string \<Rightarrow> nat \<Rightarrow> nat \<Rightarrow> nat \<Rightarrow> bool \<Rightarrow> bool \<Rightarrow> bool \<Rightarrow> bool \<Rightarrow> bool \<Rightarrow> bool \<Rightarrow> bool \<Rightarrow> bool \<Rightarrow> Instruction" where
  "mk_inst n oc fu num si sd sr sg di dd dr dg =
     \<lparr>op_name = n, op_code = oc, funct = fu, opnd_num = num,
      src_imed = si, src_drct = sd, src_rltv = sr, src_reg = sg,
      des_imed = di, des_drct = dd, des_rltv = dr, des_reg = dg\<rparr>"

definition inst_table :: "Instruction list" where
  "inst_table =
     [mk_inst ''mov'' 0 0 2 True True False True False True False True,
      mk_inst ''cmp'' 1 0 2 True True False True True True False True,
      mk_inst ''add'' 2 1 2 True True False True False True False True,
      mk_inst ''sub'' 2 2 2 True True False True False True False True,
      mk_inst ''lea'' 4 0 2 False True False False False True False True,
      mk_inst ''clr'' 5 1 1 False False False False False True False True,
      mk_inst ''not'' 5 2 1 False False False False False True False True,
      mk_inst ''inc'' 5 3 1 False False False False False True False True,
      mk_inst ''dec'' 5 4 1 False False False False False True False True,
      mk_inst ''jmp'' 9 1 1 False False False False False True True False,
      mk_inst ''bne'' 9 2 1 False False False False False True True False,
      mk_inst ''jsr'' 9 3 1 False False False False False True True False,
      mk_inst ''red'' 12 0 1 False False False False False True False True,
      mk_inst ''prn'' 13 0 1 False False False False True True False True,
      mk_inst ''rts'' 14 0 0 False False False False False False False False,
      mk_inst ''stop'' 15 0 0 False False False False False False False False]"

definition find_ass_inst :: "string \<Rightarrow> Instruction option" where
  "find_ass_inst str = find (\<lambda>inst. str = op_name inst) inst_table"

datatype guide_num = g_data | g_string | g_entry | g_extern

text \<open>\<^verbatim>\<open>guide_check\<close>: \<open>None\<close> stands for the result -1.\<close>

definition guide_check :: "string \<Rightarrow> guide_num option" where
  "guide_check str =
     (if ''data'' = str then Some g_data
      else if ''string'' = str then Some g_string
      else if ''entry'' = str then Some g_entry
      else if ''extern'' = str then Some g_extern
      else None)"

text \<open>
  The macro \<^verbatim>\<open>reg_check\<close>: the register's index, \<open>None\<close> for -1. Only a string of
  exactly two characters has \<^verbatim>\<open>str[2] == '\0'\<close> with \<^verbatim>\<open>str[1]\<close> in the range.
\<close>

definition reg_check :: "string \<Rightarrow> nat option" where
  "reg_check str =
     (case str of
        [c0, c1] \<Rightarrow>
          if c0 = CHR ''r'' \<and> (48 :: nat) \<le> of_char c1 \<and> (of_char c1 :: nat) \<le> 55
          then Some (of_char c1 - 48) else None
      | _ \<Rightarrow> None)"

definition is_reserved :: "string \<Rightarrow> bool" where
  "is_reserved str = (find_ass_inst str \<noteq> None \<or> guide_check str \<noteq> None \<or> reg_check str \<noteq> None)"

text \<open>
  \<^verbatim>\<open>is_legal_symb\<close>: the loop checks the characters at the indices 1 to
  \<^verbatim>\<open>MAX_SYMB_LEN\<close> - 1 and stops at the end of the string.
\<close>

definition is_legal_symb :: "string \<Rightarrow> indicator" where
  "is_legal_symb str =
     (case str of
        [] \<Rightarrow> STR_EMPTY
      | c # cs \<Rightarrow>
          if \<not> isalpha c then ALPHA_EXP
          else if is_reserved str then DUP_ERR
          else if \<not> list_all isalnum (take (MAX_SYMB_LEN - 1) cs) then ALNUM_EXP
          else if length str \<le> MAX_SYMB_LEN then VALID
          else STR_TOO_LONG)"

text \<open>
  The loop of \<^verbatim>\<open>str_check\<close> over the characters after the opening quote: the index
  of the last character that is not white and of the first one that is not printable
  (\<open>None\<close> for -1).
\<close>

fun str_scan :: "string \<Rightarrow> nat \<Rightarrow> nat option \<Rightarrow> nat option \<Rightarrow> nat option \<times> nat option" where
  "str_scan [] i non_white_i non_pnt_i = (non_white_i, non_pnt_i)"
| "str_scan (c # cs) i non_white_i non_pnt_i =
     str_scan cs (i + 1)
       (if \<not> isspace c then Some i else non_white_i)
       (if \<not> isprint c \<and> non_pnt_i = None then Some i else non_pnt_i)"

text \<open>\<^verbatim>\<open>str_check\<close>: \<open>Inr\<close> carries the content of \<^verbatim>\<open>str_out\<close> when the result is \<^verbatim>\<open>VALID\<close>.\<close>

definition str_check :: "string \<Rightarrow> indicator + string" where
  "str_check input =
     (case dropWhile isspace input of
        [] \<Rightarrow> Inl STR_EMPTY
      | c # rest \<Rightarrow>
          if c \<noteq> CHR 0x22 then Inl PRFX_EXP
          else
            (case str_scan rest 0 None None of
               (None, non_pnt_i) \<Rightarrow> Inl SFX_EXP
             | (Some nw, non_pnt_i) \<Rightarrow>
                 if rest ! nw \<noteq> CHR 0x22 then Inl SFX_EXP
                 else if (case non_pnt_i of None \<Rightarrow> False | Some np \<Rightarrow> np < nw) then Inl INVALID_CHR
                 else Inr (take nw rest)))"

section \<open>Input reading and checks (assembler\_io.c)\<close>

text \<open>
  A C string is the list of its characters before the terminating zero.

  \<^verbatim>\<open>get_token\<close>: white characters are skipped; a comma is a token of its own; any other
  token runs to the next comma, white character or end of the string and has at most
  \<^verbatim>\<open>MAX_LINE_LEN\<close> characters. The result is the token and the string that \<^verbatim>\<open>*input\<close>
  points to afterwards; the value returned by the C function is the length of the
  token, 0 at the end of the string.
\<close>

definition get_token :: "string \<Rightarrow> string \<times> string" where
  "get_token input =
     (case dropWhile isspace input of
        [] \<Rightarrow> ([], [])
      | c # cs \<Rightarrow>
          if c = CHR '','' then ('','', cs)
          else
            let word = take MAX_LINE_LEN (takeWhile (\<lambda>x. x \<noteq> CHR '','' \<and> \<not> isspace x) (c # cs))
            in (word, drop (length word) (c # cs)))"

text \<open>
  \<^verbatim>\<open>get_line\<close>: the source file is the list of its lines, without the newline
  characters. The result is the indicator, the content of \<^verbatim>\<open>line\<close> and the lines still
  to read. Of a line of more than \<^verbatim>\<open>MAX_LINE_LEN\<close> characters the first
  \<^verbatim>\<open>MAX_LINE_LEN\<close> are stored, the rest is discarded and \<^verbatim>\<open>STR_TOO_LONG\<close> is returned.
\<close>

definition get_line :: "string list \<Rightarrow> indicator \<times> string \<times> string list" where
  "get_line stream =
     (case stream of
        [] \<Rightarrow> (EOF_ENC, [], [])
      | l # ls \<Rightarrow>
          if length l > MAX_LINE_LEN then (STR_TOO_LONG, take MAX_LINE_LEN l, ls)
          else (ALL_GOOD, l, ls))"

text \<open>\<^verbatim>\<open>symb_check\<close>: the switch over the result of \<^verbatim>\<open>is_legal_symb\<close>.\<close>

definition symb_check :: "string \<Rightarrow> indicator" where
  "symb_check symb_name =
     (let res = is_legal_symb symb_name
      in if res = STR_EMPTY \<or> res = ALPHA_EXP \<or> res = ALNUM_EXP \<or> res = STR_TOO_LONG
            \<or> res = DUP_ERR
         then INP_ERROR else ALL_GOOD)"

text \<open>\<^verbatim>\<open>comma_check\<close>: the status and the rest of the line after the token read.\<close>

definition comma_check :: "string \<Rightarrow> indicator \<times> string" where
  "comma_check line =
     (case get_token line of
        (token, rest) \<Rightarrow>
          if token = [] then (END_OF_LINE, rest)
          else if token \<noteq> '','' then (INP_ERROR, rest)
          else (ALL_GOOD, rest))"

definition line_end_check :: "string \<Rightarrow> indicator" where
  "line_end_check line = (if fst (get_token line) \<noteq> [] then INP_ERROR else ALL_GOOD)"

text \<open>
  \<^verbatim>\<open>get_data_word\<close>: the second argument is the value of \<^verbatim>\<open>*res_ptr\<close> before the call,
  which an error leaves as it is. The token read is not empty, so \<^verbatim>\<open>str_to_long\<close>
  returns \<^verbatim>\<open>INT_EXP\<close> or stores a value.
\<close>

definition get_data_word :: "string \<Rightarrow> Word \<Rightarrow> indicator \<times> Word \<times> string" where
  "get_data_word line res =
     (case get_token line of
        (token, rest) \<Rightarrow>
          if token = [] then (INP_ERROR, res, rest)
          else if token = '','' then (INP_ERROR, res, rest)
          else (case str_to_long token of
                  Inl e \<Rightarrow> (INP_ERROR, res, rest)
                | Inr long_res \<Rightarrow> (ALL_GOOD, long_to_s24b long_res, rest)))"

text \<open>
  \<^verbatim>\<open>get_char_string\<close>: the status and, when \<^verbatim>\<open>str_check\<close> returned \<^verbatim>\<open>VALID\<close>, the
  character string stored in \<^verbatim>\<open>res_ptr\<close>.
\<close>

definition get_char_string :: "string \<Rightarrow> indicator \<times> string" where
  "get_char_string line =
     (case str_check line of Inl e \<Rightarrow> (INP_ERROR, []) | Inr char_str \<Rightarrow> (ALL_GOOD, char_str))"

section \<open>The first scan (as\_1st\_scan.c)\<close>

text \<open>
  Diagnostics written by \<^verbatim>\<open>printerr\<close> are not part of the model. Memory allocation
  is taken to succeed: where \<^verbatim>\<open>malloc\<close> fails the program leaves through
  \<^verbatim>\<open>shut_down_err\<close> and writes no output file.

  An \<^verbatim>\<open>Operand\<close>: the members of the union \<^verbatim>\<open>info\<close> are separate fields, each read
  only after it was written. A local operand that was not yet written is
  \<open>uninit_opnd\<close>; its content is indeterminate in C.
\<close>

record Operand =
  adss_method :: adss_method
  mem_word :: Word
  symb_ptr :: "Symbol option"
  reg_index :: nat

definition uninit_opnd :: Operand where
  "uninit_opnd = \<lparr>adss_method = imediate_a, mem_word = 0, symb_ptr = None, reg_index = 0\<rparr>"

definition get_imed_opnd :: "string \<Rightarrow> Operand \<Rightarrow> indicator \<times> Operand" where
  "get_imed_opnd num_str opnd =
     (case str_to_long num_str of
        Inl e \<Rightarrow> (if e = STR_EMPTY \<or> e = INT_EXP then (INP_ERROR, opnd) else (ALL_GOOD, opnd))
      | Inr res_val \<Rightarrow>
          (ALL_GOOD,
           opnd\<lparr>adss_method := imediate_a,
                mem_word := set_word_field ARE
                              (set_word_field NON_ARE (mem_word opnd) (long_to_s21b res_val) 3)
                              ARE_A_set 0\<rparr>))"

definition new_symb_add_1 ::
  "SymbolTable \<Rightarrow> string \<Rightarrow> Address \<Rightarrow> bool \<Rightarrow> bool \<Rightarrow> indicator \<times> SymbolTable" where
  "new_symb_add_1 table nm rep_adss is_ext is_dat =
     (if symb_check nm = INP_ERROR then (INP_ERROR, table)
      else
        let rep_w = set_word_field NON_ARE
                      (set_word_field ARE 0 (if is_ext then ARE_E_set else ARE_R_set) 0)
                      rep_adss 3
        in case symb_inst True table nm rep_w is_ext False is_dat of
             (status, table') \<Rightarrow> (if status = ALL_GOOD then ALL_GOOD else INP_ERROR, table'))"

text \<open>\<^verbatim>\<open>get_opnd_1\<close>: the status, the operand and the rest of the line.\<close>

definition get_opnd_1 :: "string \<Rightarrow> Operand \<Rightarrow> indicator \<times> Operand \<times> string" where
  "get_opnd_1 line opnd =
     (case get_token line of
        (token, rest) \<Rightarrow>
          if token = [] then (INP_ERROR, opnd, rest)
          else if token = '','' then (INP_ERROR, opnd, rest)
          else if hd token = CHR ''#'' then
            (case get_imed_opnd (tl token) opnd of (status, opnd') \<Rightarrow> (status, opnd', rest))
          else
            (case reg_check token of
               Some reg_i \<Rightarrow> (ALL_GOOD, opnd\<lparr>adss_method := direct_reg_a, reg_index := reg_i\<rparr>, rest)
             | None \<Rightarrow>
                 if hd token = CHR ''&'' then
                   (symb_check (tl token), opnd\<lparr>adss_method := relative_a\<rparr>, rest)
                 else
                   (symb_check token, opnd\<lparr>adss_method := direct_a\<rparr>, rest)))"

definition inst_opnd_match :: "Instruction \<Rightarrow> Operand \<Rightarrow> bool \<Rightarrow> indicator" where
  "inst_opnd_match inst opnd is_source =
     (if is_source then
        (if (adss_method opnd = imediate_a \<and> \<not> src_imed inst)
            \<or> (adss_method opnd = direct_a \<and> \<not> src_drct inst)
            \<or> (adss_method opnd = relative_a \<and> \<not> src_rltv inst)
            \<or> (adss_method opnd = direct_reg_a \<and> \<not> src_reg inst)
         then INP_ERROR else ALL_GOOD)
      else
        (if (adss_method opnd = imediate_a \<and> \<not> des_imed inst)
            \<or> (adss_method opnd = direct_a \<and> \<not> des_drct inst)
            \<or> (adss_method opnd = relative_a \<and> \<not> des_rltv inst)
            \<or> (adss_method opnd = direct_reg_a \<and> \<not> des_reg inst)
         then INP_ERROR else ALL_GOOD))"

text \<open>
  \<^verbatim>\<open>get_inst_opnds_1\<close>: the status and the source and destination operands. The
  checks are chained with \<^verbatim>\<open>&&\<close>, so the first one that fails ends the reading.
\<close>

definition get_dest_opnd_1 :: "string \<Rightarrow> Instruction \<Rightarrow> Operand \<Rightarrow> indicator \<times> Operand" where
  "get_dest_opnd_1 line inst des_opnd =
     (case get_opnd_1 line des_opnd of
        (st, des, rest) \<Rightarrow>
          if st = ALL_GOOD \<and> inst_opnd_match inst des False = ALL_GOOD
             \<and> line_end_check rest = ALL_GOOD
          then (ALL_GOOD, des) else (INP_ERROR, des))"

definition get_inst_opnds_1 ::
  "string \<Rightarrow> Instruction \<Rightarrow> Operand \<Rightarrow> Operand \<Rightarrow> indicator \<times> Operand \<times> Operand" where
  "get_inst_opnds_1 line inst src_opnd des_opnd =
     (if opnd_num inst = 0 then (line_end_check line, src_opnd, des_opnd)
      else if opnd_num inst = 1 then
        (case get_dest_opnd_1 line inst des_opnd of (st, des) \<Rightarrow> (st, src_opnd, des))
      else if opnd_num inst = 2 then
        (case get_opnd_1 line src_opnd of
           (st1, src, rest1) \<Rightarrow>
             if st1 = ALL_GOOD \<and> inst_opnd_match inst src True = ALL_GOOD then
               (case comma_check rest1 of
                  (st2, rest2) \<Rightarrow>
                    if st2 = ALL_GOOD then
                      (case get_dest_opnd_1 rest2 inst des_opnd of (st3, des) \<Rightarrow> (st3, src, des))
                    else (INP_ERROR, src, des_opnd))
             else (INP_ERROR, src, des_opnd))
      else (INP_ERROR, src_opnd, des_opnd))"

definition creat_inst_word :: "Instruction \<Rightarrow> Operand \<Rightarrow> Operand \<Rightarrow> Word" where
  "creat_inst_word inst src_opnd des_opnd =
     (let r0 = set_word_field ARE 0 ARE_A_set 0;
          r1 = set_word_field FUNCT r0 (of_nat (funct inst)) 3;
          r2 = set_word_field OPCODE r1 (of_nat (op_code inst)) 18
      in if opnd_num inst > 0 then
           (let r3 = set_word_field DEST_ADSS r2 (adss_num (adss_method des_opnd)) 11;
                r4 = set_word_field DEST_REG r3
                       (if adss_method des_opnd = direct_reg_a then of_nat (reg_index des_opnd) else 0) 8
            in if opnd_num inst > 1 then
                 (let r5 = set_word_field SRC_ADSS r4 (adss_num (adss_method src_opnd)) 16
                  in set_word_field SRC_REG r5
                       (if adss_method src_opnd = direct_reg_a then of_nat (reg_index src_opnd) else 0) 13)
               else set_word_field (SRC_REG OR SRC_ADSS) r4 0 13)
         else set_word_field (DEST_REG OR DEST_ADSS OR SRC_REG OR SRC_ADSS) r2 0 8)"

definition opnd_word_add_1 :: "Operand \<Rightarrow> WordList option \<Rightarrow> WordList option" where
  "opnd_word_add_1 opnd code_img_ptr =
     (case adss_method opnd of
        imediate_a \<Rightarrow> snd (word_list_add True (mem_word opnd) code_img_ptr)
      | direct_a \<Rightarrow> snd (word_list_add True 0 code_img_ptr)
      | relative_a \<Rightarrow> snd (word_list_add True 0 code_img_ptr)
      | direct_reg_a \<Rightarrow> code_img_ptr)"

definition update_code_img_1 ::
  "string \<Rightarrow> Instruction \<Rightarrow> WordList option \<Rightarrow> indicator \<times> WordList option" where
  "update_code_img_1 line inst code_img_ptr =
     (case get_inst_opnds_1 line inst uninit_opnd uninit_opnd of
        (st, src_opnd, des_opnd) \<Rightarrow>
          if st = INP_ERROR then (INP_ERROR, code_img_ptr)
          else if code_img_ptr \<noteq> None then
            (let c1 = snd (word_list_add True (creat_inst_word inst src_opnd des_opnd) code_img_ptr)
             in (ALL_GOOD,
                 if opnd_num inst = 0 then c1
                 else if opnd_num inst = 1 then opnd_word_add_1 des_opnd c1
                 else if opnd_num inst = 2 then opnd_word_add_1 des_opnd (opnd_word_add_1 src_opnd c1)
                 else c1))
          else (ALL_GOOD, code_img_ptr))"

definition proc_inst_1 ::
  "string \<Rightarrow> string \<Rightarrow> string \<Rightarrow> bool \<Rightarrow> WordList option \<Rightarrow> SymbolTable
     \<Rightarrow> indicator \<times> WordList option \<times> SymbolTable" where
  "proc_inst_1 arg_line inst_name symb_name is_symb_dec code_img_ptr symb_table =
     (case (if is_symb_dec
            then new_symb_add_1 symb_table symb_name
                   (case code_img_ptr of Some c \<Rightarrow> wl_size c + INITIAL_LOAD_ADSS | None \<Rightarrow> 0)
                   False False
            else (ALL_GOOD, symb_table)) of
        (st, table') \<Rightarrow>
          if is_symb_dec \<and> st = INP_ERROR then (INP_ERROR, code_img_ptr, table')
          else
            (case find_ass_inst inst_name of
               None \<Rightarrow> (INP_ERROR, code_img_ptr, table')
             | Some inst \<Rightarrow>
                 (case update_code_img_1 arg_line inst code_img_ptr of
                    (status, code') \<Rightarrow> (status, code', table'))))"

text \<open>
  The \<^verbatim>\<open>while\<close> loop of \<^verbatim>\<open>proc_data_guide\<close>: a comma, then a parameter, until the
  line ends or an error is met. The result is the last status.
\<close>

function proc_data_loop :: "string \<Rightarrow> Word \<Rightarrow> WordList option \<Rightarrow> indicator \<times> WordList option" where
  "proc_data_loop line param_word data_img_ptr =
     (case comma_check line of
        (status, line1) \<Rightarrow>
          if status \<noteq> ALL_GOOD then (status, data_img_ptr)
          else
            (case get_data_word line1 param_word of
               (status2, param_word2, line2) \<Rightarrow>
                 if status2 = ALL_GOOD then
                   proc_data_loop line2 param_word2
                     (if data_img_ptr \<noteq> None then snd (word_list_add True param_word2 data_img_ptr)
                      else data_img_ptr)
                 else (status2, data_img_ptr)))"
  by pat_completeness auto
termination
  apply (relation "measure (\<lambda>(line, param_word, data_img_ptr). length line)")
   apply simp
  apply simp
  subgoal premises prems for line param_word x y xa ya xb yb
  proof -
    have tok: "length (snd (get_token s)) \<le> length s" for s
    proof (cases "dropWhile isspace s")
      case Nil
      show ?thesis unfolding get_token_def Nil by simp
    next
      case (Cons c cs)
      have "length (c # cs) \<le> length s"
        using length_dropWhile_le [of isspace s] by (simp only: Cons)
      then show ?thesis
        unfolding get_token_def Cons
        by (simp add: Let_def le_diff_conv trans_le_add1 del: takeWhile.simps)
    qed
    have tok_comma: "length (snd (get_token s)) < length s" if "fst (get_token s) = '',''" for s
    proof (cases "dropWhile isspace s")
      case Nil
      from that show ?thesis unfolding get_token_def Nil by simp
    next
      case (Cons c cs)
      have le: "length (c # cs) \<le> length s"
        using length_dropWhile_le [of isspace s] by (simp only: Cons)
      show ?thesis
      proof (cases "c = CHR '',''")
        case True
        with le show ?thesis unfolding get_token_def Cons by simp
      next
        case False
        have "\<not> isspace c"
          using dropWhile_eq_Cons_conv [of isspace s c cs] Cons by simp
        with that False show ?thesis
          unfolding get_token_def Cons by (simp add: Let_def MAX_LINE_LEN_def)
      qed
    qed
    from prems(1) have "fst (get_token line) = '',''" and "y = snd (get_token line)"
      by (auto simp add: comma_check_def split: prod.splits if_splits)
    then have l1: "length y < length line"
      using tok_comma by simp
    from prems(3,4) have "yb = snd (get_token y)"
      by (auto simp add: get_data_word_def split: prod.splits if_splits sum.splits)
    then have "length yb \<le> length y"
      using tok by simp
    with l1 show ?thesis by simp
  qed
  done

definition proc_data_guide :: "string \<Rightarrow> WordList option \<Rightarrow> indicator \<times> WordList option" where
  "proc_data_guide line data_img_ptr =
     (case get_data_word line 0 of
        (status, param_word, line1) \<Rightarrow>
          if status = ALL_GOOD then
            (case proc_data_loop line1 param_word
                    (if data_img_ptr \<noteq> None then snd (word_list_add True param_word data_img_ptr)
                     else data_img_ptr) of
               (status', data') \<Rightarrow> (if status' = INP_ERROR then INP_ERROR else ALL_GOOD, data'))
          else (if status = INP_ERROR then INP_ERROR else ALL_GOOD, data_img_ptr))"

text \<open>
  The \<^verbatim>\<open>do\<close> loop of \<^verbatim>\<open>proc_string_guide\<close> adds every character of the string and
  then the finishing \<^verbatim>\<open>'\0'\<close>.
\<close>

fun string_words_add :: "string \<Rightarrow> WordList option \<Rightarrow> WordList option" where
  "string_words_add [] data_img_ptr = snd (word_list_add True (char_to_word (CHR 0x00)) data_img_ptr)"
| "string_words_add (c # cs) data_img_ptr =
     string_words_add cs (snd (word_list_add True (char_to_word c) data_img_ptr))"

definition proc_string_guide :: "string \<Rightarrow> WordList option \<Rightarrow> indicator \<times> WordList option" where
  "proc_string_guide line data_img_ptr =
     (case get_char_string line of
        (st, char_str) \<Rightarrow>
          if st = INP_ERROR then (INP_ERROR, data_img_ptr)
          else if data_img_ptr \<noteq> None then (ALL_GOOD, string_words_add char_str data_img_ptr)
          else (ALL_GOOD, data_img_ptr))"

definition proc_extern_guide_1 :: "string \<Rightarrow> SymbolTable \<Rightarrow> indicator \<times> SymbolTable" where
  "proc_extern_guide_1 line symb_table =
     (case get_token line of
        (token, rest) \<Rightarrow>
          if token = [] then (INP_ERROR, symb_table)
          else
            (case new_symb_add_1 symb_table token 0 True False of
               (st, table') \<Rightarrow>
                 if st = INP_ERROR then (INP_ERROR, table')
                 else (line_end_check rest, table')))"

definition proc_guidance_1 ::
  "string \<Rightarrow> string \<Rightarrow> string \<Rightarrow> bool \<Rightarrow> WordList option \<Rightarrow> SymbolTable
     \<Rightarrow> indicator \<times> WordList option \<times> SymbolTable" where
  "proc_guidance_1 arg_line stmnt_name symb_name is_symb_dec data_img_ptr symb_table =
     (if stmnt_name = [] then (INP_ERROR, data_img_ptr, symb_table)
      else
        (case guide_check stmnt_name of
           None \<Rightarrow> (INP_ERROR, data_img_ptr, symb_table)
         | Some g_extern \<Rightarrow>
             (case proc_extern_guide_1 arg_line symb_table of
                (status, table') \<Rightarrow> (status, data_img_ptr, table'))
         | Some g_entry \<Rightarrow> (ALL_GOOD, data_img_ptr, symb_table)
         | Some guide \<Rightarrow>
             (case (if is_symb_dec
                    then new_symb_add_1 symb_table symb_name
                           (case data_img_ptr of Some d \<Rightarrow> wl_size d | None \<Rightarrow> 0) False True
                    else (ALL_GOOD, symb_table)) of
                (st, table') \<Rightarrow>
                  if is_symb_dec \<and> st = INP_ERROR then (INP_ERROR, data_img_ptr, table')
                  else if guide = g_data then
                    (case proc_data_guide arg_line data_img_ptr of
                       (status, data') \<Rightarrow> (status, data', table'))
                  else
                    (case proc_string_guide arg_line data_img_ptr of
                       (status, data') \<Rightarrow> (status, data', table')))))"

text \<open>
  \<^verbatim>\<open>proc_line_1\<close>: the status and the code image, data image and symbol table after
  the line.
\<close>

definition proc_statement_1 ::
  "string \<Rightarrow> string \<Rightarrow> string \<Rightarrow> bool \<Rightarrow> WordList option \<Rightarrow> WordList option \<Rightarrow> SymbolTable
     \<Rightarrow> indicator \<times> WordList option \<times> WordList option \<times> SymbolTable" where
  "proc_statement_1 line key_word symb_name is_symb_dec code_img_ptr data_img_ptr symb_table =
     (if key_word = '','' then (INP_ERROR, code_img_ptr, data_img_ptr, symb_table)
      else if hd key_word = CHR ''.'' then
        (case proc_guidance_1 line (tl key_word) symb_name is_symb_dec data_img_ptr symb_table of
           (status, data', table') \<Rightarrow> (status, code_img_ptr, data', table'))
      else
        (case proc_inst_1 line key_word symb_name is_symb_dec code_img_ptr symb_table of
           (status, code', table') \<Rightarrow> (status, code', data_img_ptr, table')))"

definition proc_line_1 ::
  "string \<Rightarrow> WordList option \<Rightarrow> WordList option \<Rightarrow> SymbolTable
     \<Rightarrow> indicator \<times> WordList option \<times> WordList option \<times> SymbolTable" where
  "proc_line_1 line code_img_ptr data_img_ptr symb_table =
     (if line \<noteq> [] \<and> hd line = CHR '';'' then (ALL_GOOD, code_img_ptr, data_img_ptr, symb_table)
      else
        (case get_token line of
           (token_1st, rest1) \<Rightarrow>
             if token_1st = [] then (ALL_GOOD, code_img_ptr, data_img_ptr, symb_table)
             else if last token_1st = CHR '':'' then
               (case get_token rest1 of
                  (token_2nd, rest2) \<Rightarrow>
                    if token_2nd = [] then (ALL_GOOD, code_img_ptr, data_img_ptr, symb_table)
                    else proc_statement_1 rest2 token_2nd (butlast token_1st) True
                           code_img_ptr data_img_ptr symb_table)
             else proc_statement_1 rest1 token_1st [] False code_img_ptr data_img_ptr symb_table))"

text \<open>
  The loop of \<^verbatim>\<open>run_1st_scan\<close> over the lines that \<^verbatim>\<open>get_line\<close> delivers. Once the
  status is \<^verbatim>\<open>INP_ERROR\<close> the lines are processed with \<^verbatim>\<open>NULL\<close> for both images, which
  stay as they are.
\<close>

fun scan_lines_1 ::
  "string list \<Rightarrow> indicator \<Rightarrow> WordList \<Rightarrow> WordList \<Rightarrow> SymbolTable
     \<Rightarrow> indicator \<times> WordList \<times> WordList \<times> SymbolTable" where
  "scan_lines_1 [] status code_img data_img symb_table = (status, code_img, data_img, symb_table)"
| "scan_lines_1 (l # ls) status code_img data_img symb_table =
     (case get_line (l # ls) of
        (rd, line, stream') \<Rightarrow>
          if rd = STR_TOO_LONG then scan_lines_1 ls INP_ERROR code_img data_img symb_table
          else if status \<noteq> INP_ERROR then
            (case proc_line_1 line (Some code_img) (Some data_img) symb_table of
               (st, code', data', table') \<Rightarrow>
                 scan_lines_1 ls (if st = INP_ERROR then INP_ERROR else status)
                   (case code' of Some c \<Rightarrow> c | None \<Rightarrow> code_img)
                   (case data' of Some d \<Rightarrow> d | None \<Rightarrow> data_img) table')
          else
            (case proc_line_1 line None None symb_table of
               (st, code', data', table') \<Rightarrow> scan_lines_1 ls status code_img data_img table'))"

definition run_1st_scan ::
  "string list \<Rightarrow> WordList \<Rightarrow> WordList \<Rightarrow> SymbolTable
     \<Rightarrow> indicator \<times> WordList \<times> WordList \<times> SymbolTable" where
  "run_1st_scan source_file code_img data_img symb_table =
     (case scan_lines_1 source_file ALL_GOOD code_img data_img symb_table of
        (status, code', data', table') \<Rightarrow>
          (status, code', data', inc_data table' (wl_size code' + INITIAL_LOAD_ADSS)))"

section \<open>The second scan (as\_2nd\_scan.c)\<close>

text \<open>
  The objects that the functions of the second scan reach through their pointer
  arguments: the nodes of the code image, the node that \<^verbatim>\<open>curr_word\<close> of
  \<^verbatim>\<open>run_2nd_scan\<close> points to (its position in the code image; the length of the
  image stands for \<^verbatim>\<open>NULL\<close>, the end of the list), the instruction counter, the list
  of external references and the symbol table.

  The functions are called with \<^verbatim>\<open>curr_word_ptr\<close> and \<^verbatim>\<open>ext_list_ptr\<close> pointing to
  these objects or with \<^verbatim>\<open>NULL\<close> for them: the arguments \<open>cw_given\<close> and \<open>el_given\<close>
  of the model say that the pointer is not \<^verbatim>\<open>NULL\<close>.
\<close>

record scan2_state =
  code_img :: WordList
  curr_word :: nat
  IC :: Address
  ext_list :: ExtList
  symb_tab :: SymbolTable

text \<open>The test \<^verbatim>\<open>curr_word_ptr != NULL && *curr_word_ptr != NULL\<close>.\<close>

definition has_curr_word :: "bool \<Rightarrow> scan2_state \<Rightarrow> bool" where
  "has_curr_word cw_given st = (cw_given \<and> curr_word st < length (code_img st))"

text \<open>
  \<^verbatim>\<open>get_rltv_opnd_word\<close>: the second argument is the value of \<^verbatim>\<open>*res_ptr\<close> before the
  call; the two fields are set in it, and an error leaves it as it is.
\<close>

definition get_rltv_opnd_word ::
  "string \<Rightarrow> Word \<Rightarrow> SymbolTable \<Rightarrow> Address \<Rightarrow> indicator \<times> Word" where
  "get_rltv_opnd_word symb_name res symb_table curr_inst_adss =
     (case symb_lookup symb_table symb_name of
        None \<Rightarrow> (INP_ERROR, res)
      | Some symb \<Rightarrow>
          if is_extern symb then (INP_ERROR, res)
          else
            let symb_adss = get_symb_adss symb
            in (ALL_GOOD,
                set_word_field ARE
                  (set_word_field NON_ARE res (long_to_s21b (symb_adss - curr_inst_adss)) 3)
                  ARE_A_set 0))"

text \<open>
  The local variable \<^verbatim>\<open>word\<close> of \<^verbatim>\<open>str_to_opnd_2\<close> is passed to
  \<^verbatim>\<open>get_rltv_opnd_word\<close> before it was written; its content is indeterminate in C.
\<close>

definition uninit_word :: Word where
  "uninit_word = 0"

text \<open>
  \<^verbatim>\<open>str_to_opnd_2\<close>: the status and the operand stored in \<^verbatim>\<open>*res_ptr\<close>. The symbol
  that \<^verbatim>\<open>symb_ptr\<close> points to is kept as its value.
\<close>

definition str_to_opnd_2 ::
  "string \<Rightarrow> Operand \<Rightarrow> SymbolTable \<Rightarrow> Address \<Rightarrow> indicator \<times> Operand" where
  "str_to_opnd_2 opnd_str res symb_table curr_inst_adss =
     (if opnd_str \<noteq> [] \<and> hd opnd_str = CHR ''#'' then
        (ALL_GOOD, res\<lparr>adss_method := imediate_a\<rparr>)
      else if reg_check opnd_str \<noteq> None then
        (ALL_GOOD, res\<lparr>adss_method := direct_reg_a\<rparr>)
      else if opnd_str \<noteq> [] \<and> hd opnd_str = CHR ''&'' then
        (case get_rltv_opnd_word (tl opnd_str) uninit_word symb_table curr_inst_adss of
           (status, word) \<Rightarrow>
             if status = ALL_GOOD then (status, res\<lparr>adss_method := relative_a, mem_word := word\<rparr>)
             else (status, res\<lparr>adss_method := relative_a\<rparr>))
      else
        (case symb_lookup symb_table opnd_str of
           None \<Rightarrow> (INP_ERROR, res\<lparr>adss_method := direct_a\<rparr>)
         | Some new_symb \<Rightarrow> (ALL_GOOD, res\<lparr>adss_method := direct_a, symb_ptr := Some new_symb\<rparr>)))"

text \<open>
  \<^verbatim>\<open>proc_opnd_2\<close>: the status and the state after the call. Without a current word
  nothing is updated, the instruction counter included.
\<close>

definition proc_opnd_2 ::
  "string \<Rightarrow> bool \<Rightarrow> Address \<Rightarrow> bool \<Rightarrow> scan2_state \<Rightarrow> indicator \<times> scan2_state" where
  "proc_opnd_2 opnd_str cw_given curr_inst_adss el_given st =
     (case str_to_opnd_2 opnd_str uninit_opnd (symb_tab st) curr_inst_adss of
        (status, opnd) \<Rightarrow>
          if status = ALL_GOOD \<and> has_curr_word cw_given st then
            (case adss_method opnd of
               imediate_a \<Rightarrow> (status, st\<lparr>curr_word := curr_word st + 1, IC := IC st + 1\<rparr>)
             | direct_reg_a \<Rightarrow> (status, st)
             | relative_a \<Rightarrow>
                 (status, st\<lparr>code_img := (code_img st)[curr_word st := mem_word opnd],
                            curr_word := curr_word st + 1, IC := IC st + 1\<rparr>)
             | direct_a \<Rightarrow>
                 (case symb_ptr opnd of
                    None \<Rightarrow> (status, st)
                  | Some symb \<Rightarrow>
                      let elist = (if el_given \<and> is_extern symb
                                   then (case snd (ext_list_add True (name symb) (IC st)
                                                     (Some (ext_list st))) of
                                           Some el \<Rightarrow> el | None \<Rightarrow> ext_list st)
                                   else ext_list st)
                      in (status, st\<lparr>code_img := (code_img st)[curr_word st := rep_word symb],
                                    curr_word := curr_word st + 1, IC := IC st + 1,
                                    ext_list := elist\<rparr>)))
          else (status, st))"

text \<open>
  The \<^verbatim>\<open>while\<close> loop of \<^verbatim>\<open>proc_inst_2\<close>, which runs as long as the status is
  \<^verbatim>\<open>UNFINISHED\<close>: an operand, then the end of the line or a comma and the next
  operand. The result is the final status and the state.
\<close>

function proc_inst_2_loop ::
  "string \<Rightarrow> bool \<Rightarrow> bool \<Rightarrow> Address \<Rightarrow> bool \<Rightarrow> scan2_state \<Rightarrow> indicator \<times> scan2_state" where
  "proc_inst_2_loop arg_line is_1st_opnd cw_given curr_inst_adss el_given st =
     (case get_token arg_line of
        (token, line1) \<Rightarrow>
          if token = [] then (if is_1st_opnd then ALL_GOOD else INP_ERROR, st)
          else if token = '','' then (INP_ERROR, st)
          else
            (case proc_opnd_2 token cw_given curr_inst_adss el_given st of
               (res, st') \<Rightarrow>
                 if res = INP_ERROR then (INP_ERROR, st')
                 else
                   (case get_token line1 of
                      (token2, line2) \<Rightarrow>
                        if token2 = [] then (ALL_GOOD, st')
                        else if token2 \<noteq> '','' then (INP_ERROR, st')
                        else proc_inst_2_loop line2 False cw_given curr_inst_adss el_given st')))"
  by pat_completeness auto
termination
  apply (relation "measure (\<lambda>(arg_line, is_1st_opnd, cw_given, curr_inst_adss, el_given, st). length arg_line)")
   apply simp
  subgoal premises prems for arg_line is_1st_opnd cw_given curr_inst_adss el_given st x y xa ya xb yb
  proof -
    have tok: "length (snd (get_token s)) < length s" if "fst (get_token s) \<noteq> []" for s
    proof (cases "dropWhile isspace s")
      case Nil
      from that show ?thesis unfolding get_token_def Nil by simp
    next
      case (Cons c cs)
      have le: "length (c # cs) \<le> length s"
        using length_dropWhile_le [of isspace s] by (simp only: Cons)
      show ?thesis
      proof (cases "c = CHR '',''")
        case True
        with le show ?thesis unfolding get_token_def Cons by simp
      next
        case False
        then have "\<not> isspace c \<Longrightarrow> ?thesis"
          using le unfolding get_token_def Cons by (simp add: Let_def MAX_LINE_LEN_def)
        moreover have "\<not> isspace c"
          using dropWhile_eq_Cons_conv [of isspace s c cs] Cons by simp
        ultimately show ?thesis .
      qed
    qed
    from prems(1) have "x = fst (get_token arg_line)" and "y = snd (get_token arg_line)"
      by (simp_all add: prod_eq_iff)
    with prems(2) have l1: "length y < length arg_line"
      using tok [of arg_line] by simp
    from prems(6) have "xb = fst (get_token y)" and "yb = snd (get_token y)"
      by (simp_all add: prod_eq_iff)
    with prems(7) have "length yb < length y"
      using tok [of y] by simp
    with l1 show ?thesis by simp
  qed
  done

declare proc_inst_2_loop.simps [simp del]

text \<open>
  \<^verbatim>\<open>proc_inst_2\<close>: the address of the instruction is the value of the instruction
  counter at the call; with a current word, the first word of the instruction is
  skipped before the operands are read.
\<close>

definition proc_inst_2 :: "string \<Rightarrow> bool \<Rightarrow> bool \<Rightarrow> scan2_state \<Rightarrow> indicator \<times> scan2_state" where
  "proc_inst_2 arg_line cw_given el_given st =
     (let curr_inst_adss = IC st;
          st1 = (if has_curr_word cw_given st
                 then st\<lparr>curr_word := curr_word st + 1, IC := IC st + 1\<rparr> else st)
      in proc_inst_2_loop arg_line True cw_given curr_inst_adss el_given st1)"

text \<open>
  The assignment \<^verbatim>\<open>symb_ptr->is_entry = TRUE\<close> on the symbol that \<^verbatim>\<open>symb_lookup\<close>
  found in a chain: the first symbol of the chain with the name.
\<close>

fun set_entry_chain :: "string \<Rightarrow> Symbol list \<Rightarrow> Symbol list" where
  "set_entry_chain nm [] = []"
| "set_entry_chain nm (symb # rest) =
     (if nm = name symb then symb\<lparr>is_entry := True\<rparr> # rest
      else symb # set_entry_chain nm rest)"

text \<open>
  \<^verbatim>\<open>proc_entry_guide\<close>: the status and the symbol table. The entry flag is set before
  the end of the line is checked.
\<close>

definition proc_entry_guide :: "string \<Rightarrow> SymbolTable \<Rightarrow> indicator \<times> SymbolTable" where
  "proc_entry_guide line symb_table =
     (case get_token line of
        (token, line1) \<Rightarrow>
          if token = [] then (INP_ERROR, symb_table)
          else
            (case symb_lookup symb_table token of
               None \<Rightarrow> (INP_ERROR, symb_table)
             | Some symb \<Rightarrow>
                 if is_extern symb then (INP_ERROR, symb_table)
                 else
                   (line_end_check line1,
                    symb_table(symb_hash token :=
                      set_entry_chain token (symb_table (symb_hash token))))))"

text \<open>
  The second part of \<^verbatim>\<open>proc_line_2\<close>, run while the status is \<^verbatim>\<open>UNFINISHED\<close>:
  \<open>token\<close> is the key word of the line and \<open>line\<close> the rest of it.
\<close>

definition proc_key_word_2 ::
  "string \<Rightarrow> string \<Rightarrow> bool \<Rightarrow> bool \<Rightarrow> scan2_state \<Rightarrow> indicator \<times> scan2_state" where
  "proc_key_word_2 token line cw_given el_given st =
     (if token \<noteq> [] \<and> hd token = CHR ''.'' then
        (if tl token = ''entry'' then
           (case proc_entry_guide line (symb_tab st) of
              (status, table') \<Rightarrow> (status, st\<lparr>symb_tab := table'\<rparr>))
         else (ALL_GOOD, st))
      else if find_ass_inst token \<noteq> None then proc_inst_2 line cw_given el_given st
      else (INP_ERROR, st))"

definition proc_line_2 :: "string \<Rightarrow> bool \<Rightarrow> bool \<Rightarrow> scan2_state \<Rightarrow> indicator \<times> scan2_state" where
  "proc_line_2 line cw_given el_given st =
     (if line \<noteq> [] \<and> hd line = CHR '';'' then (ALL_GOOD, st)
      else
        (case get_token line of
           (token, line1) \<Rightarrow>
             if token = [] then (ALL_GOOD, st)
             else if last token = CHR '':'' then
               (case get_token line1 of
                  (token2, line2) \<Rightarrow>
                    if token2 = [] then (ALL_GOOD, st)
                    else proc_key_word_2 token2 line2 cw_given el_given st)
             else proc_key_word_2 token line1 cw_given el_given st))"

text \<open>
  The loop of \<^verbatim>\<open>run_2nd_scan\<close> over the lines, with the value of \<^verbatim>\<open>*status_ptr\<close>. A
  line that is too long is skipped. After an input error (of the first scan or of an
  earlier line) \<^verbatim>\<open>proc_line_2\<close> is called with \<^verbatim>\<open>NULL\<close> for \<^verbatim>\<open>curr_word_ptr\<close> and
  \<^verbatim>\<open>ext_list_ptr\<close> and its result is dropped.
\<close>

fun scan_lines_2 :: "string list \<Rightarrow> indicator \<Rightarrow> scan2_state \<Rightarrow> indicator \<times> scan2_state" where
  "scan_lines_2 [] status st = (status, st)"
| "scan_lines_2 (l # ls) status st =
     (case get_line (l # ls) of
        (rd, line, stream') \<Rightarrow>
          if rd = STR_TOO_LONG then scan_lines_2 ls status st
          else if status \<noteq> INP_ERROR then
            (case proc_line_2 line True True st of
               (res, st') \<Rightarrow> scan_lines_2 ls (if res = INP_ERROR then INP_ERROR else status) st')
          else scan_lines_2 ls status (snd (proc_line_2 line False False st)))"

text \<open>
  \<^verbatim>\<open>run_2nd_scan\<close>, called as
  \<^verbatim>\<open>run_2nd_scan(source_file, code_img_ptr, symb_table, &status, ext_list_ptr)\<close>: the
  final status and the state. \<^verbatim>\<open>curr_word\<close> starts at the head of the code image and
  the instruction counter at the initial loading address.
\<close>

definition run_2nd_scan ::
  "string list \<Rightarrow> WordList \<Rightarrow> SymbolTable \<Rightarrow> indicator \<Rightarrow> ExtList \<Rightarrow> indicator \<times> scan2_state" where
  "run_2nd_scan source_file code symb_table status elist =
     scan_lines_2 source_file status
       \<lparr>code_img = code, curr_word = 0, IC = INITIAL_LOAD_ADSS, ext_list = elist,
        symb_tab = symb_table\<rparr>"

section \<open>Output files and the driver (assembler\_io.c, assembler.c)\<close>

text \<open>The decimal digits of a number, as \<^verbatim>\<open>printf\<close> writes them.\<close>

function dec_str :: "nat \<Rightarrow> string" where
  "dec_str n = (if n < 10 then [char_of (48 + n)] else dec_str (n div 10) @ [char_of (48 + n mod 10)])"
  by pat_completeness auto
termination
  by (relation "measure id") auto

declare dec_str.simps [simp del]

text \<open>
  \<^verbatim>\<open>create_ob_file\<close>: the sizes of the two images and a newline, the code image, a
  newline, the data image.
\<close>

definition create_ob_file :: "WordList \<Rightarrow> WordList \<Rightarrow> string" where
  "create_ob_file code data =
     dec_str (unat (wl_size code)) @ '' '' @ dec_str (unat (wl_size data)) @ [CHR 0x0A]
     @ pnt_word_list code INITIAL_LOAD_ADSS
     @ [CHR 0x0A]
     @ pnt_word_list data (INITIAL_LOAD_ADSS + wl_size code)"

text \<open>
  \<^verbatim>\<open>scan_as_src_file\<close> of assembler.c: both scans, the second one with the status of
  the first. The result is the final status with the images, the list of external
  references and the symbol table.
\<close>

definition scan_as_src_file ::
  "string list \<Rightarrow> indicator \<times> WordList \<times> WordList \<times> ExtList \<times> SymbolTable" where
  "scan_as_src_file source_file =
     (case run_1st_scan source_file [] [] intlz_symbt of
        (status1, code1, data1, table1) \<Rightarrow>
          (case run_2nd_scan source_file code1 table1 status1 [] of
             (status, st) \<Rightarrow> (status, code_img st, data1, ext_list st, symb_tab st)))"

record output_files =
  ob_file :: string
  ext_file :: "string option"
  ent_file :: "string option"

text \<open>
  \<^verbatim>\<open>as_proc_file\<close> of assembler.c: the content of the three output files when both
  scans went without an error, \<open>None\<close> when no output file is written.
\<close>

definition as_proc_file :: "string list \<Rightarrow> output_files option" where
  "as_proc_file source_file =
     (case scan_as_src_file source_file of
        (st, code, data, elist, table) \<Rightarrow>
          if st = ALL_GOOD then
            Some \<lparr>ob_file = create_ob_file code data,
                  ext_file = form_ext_file elist,
                  ent_file = form_ent_file table\<rparr>
          else None)"

section \<open>Text files as lists of lines\<close>

text \<open>
  The content of a text file whose lines are those of the list: a newline between
  two lines and none after the last one. These definitions serve to state what the
  output files contain line by line.
\<close>

fun join_lines :: "string list \<Rightarrow> string" where
  "join_lines [] = []"
| "join_lines [l] = l"
| "join_lines (l # m # ls) = l @ CHR 0x0A # join_lines (m # ls)"

text \<open>The line of a word of an image at an address, and the lines of an image.\<close>

definition word_line :: "Address \<Rightarrow> Word \<Rightarrow> string" where
  "word_line adss w = adss_to_str adss @ '' '' @ word_to_str w"

fun word_lines :: "WordList \<Rightarrow> Address \<Rightarrow> string list" where
  "word_lines [] curr_adss = []"
| "word_lines (w # ws) curr_adss = word_line curr_adss w # word_lines ws (curr_adss + 1)"

text \<open>The line of the externals file for one reference.\<close>

definition ext_ref_line :: "string \<times> Address \<Rightarrow> string" where
  "ext_ref_line ref = fst ref @ '' '' @ adss_to_str (snd ref)"

text \<open>The header line of the object file for the two images.\<close>

definition ob_header :: "WordList \<Rightarrow> WordList \<Rightarrow> string" where
  "ob_header code data = dec_str (unat (wl_size code)) @ '' '' @ dec_str (unat (wl_size data))"

section \<open>Example sources and states\<close>

text \<open>
  The state in which the second scan reaches the first line of the source
  \<^verbatim>\<open>HERE: jmp &HERE\<close>, \<^verbatim>\<open>stop\<close>: the code image of the first scan and the symbol
  \<^verbatim>\<open>HERE\<close> with the address 100.
\<close>

definition here_symb :: Symbol where
  "here_symb = \<lparr>name = ''HERE'', rep_word = 802, is_extern = False, is_entry = False,
                 is_data = False\<rparr>"

definition here_state :: scan2_state where
  "here_state =
     \<lparr>code_img = [0x24100c, 0, 0x3c0004], curr_word = 0, IC = 100, ext_list = [],
      symb_tab = intlz_symbt(symb_hash ''HERE'' := [here_symb])\<rparr>"

text \<open>
  The source \<^verbatim>\<open>.entry L\<close>, \<^verbatim>\<open>L: .data 5, -1\<close>, \<^verbatim>\<open>stop\<close> and the symbol \<^verbatim>\<open>L\<close> after its
  first scan.
\<close>

definition entry_data_source :: "string list" where
  "entry_data_source = [''.entry L'', ''L: .data 5, -1'', ''stop'']"

definition L_symb :: Symbol where
  "L_symb = \<lparr>name = ''L'', rep_word = 810, is_extern = False, is_entry = False, is_data = True\<rparr>"

text \<open>
  The source \<^verbatim>\<open>L: stop\<close>, \<^verbatim>\<open>jmp &L\<close>, \<^verbatim>\<open>bne &E\<close>, \<^verbatim>\<open>E: stop\<close> with a jump back
  and a jump forward, its code image after the first scan and its symbols: \<^verbatim>\<open>L\<close> at the
  address 100 and \<^verbatim>\<open>E\<close> at the address 105.
\<close>

definition jumps_source :: "string list" where
  "jumps_source = [''L: stop'', ''jmp &L'', ''bne &E'', ''E: stop'']"

definition jumps_code :: WordList where
  "jumps_code = [0x3c0004, 0x24100c, 0, 0x241014, 0, 0x3c0004]"

definition L_code_symb :: Symbol where
  "L_code_symb = \<lparr>name = ''L'', rep_word = 802, is_extern = False, is_entry = False,
                   is_data = False\<rparr>"

definition E_code_symb :: Symbol where
  "E_code_symb = \<lparr>name = ''E'', rep_word = 842, is_extern = False, is_entry = False,
                   is_data = False\<rparr>"

definition jumps_table :: SymbolTable where
  "jumps_table = intlz_symbt(symb_hash ''L'' := [L_code_symb], symb_hash ''E'' := [E_code_symb])"

text \<open>
  The source \<^verbatim>\<open>jmp NOWHERE\<close>, \<^verbatim>\<open>HERE: jmp &HERE\<close>: the first scan reports no error,
  the second scan finds no symbol \<^verbatim>\<open>NOWHERE\<close>.
\<close>

definition unknown_symbol_source :: "string list" where
  "unknown_symbol_source = [''jmp NOWHERE'', ''HERE: jmp &HERE'']"

section \<open>Invariants of the first scan\<close>

text \<open>
  The replacement word that \<^verbatim>\<open>new_symb_add_1\<close> builds for a symbol with the address
  \<open>rep_adss\<close>.
\<close>

definition symb_rep_word :: "Address \<Rightarrow> bool \<Rightarrow> Word" where
  "symb_rep_word rep_adss is_ext =
     set_word_field NON_ARE (set_word_field ARE 0 (if is_ext then ARE_E_set else ARE_R_set) 0) rep_adss 3"

text \<open>
  What one line of the first scan does to the symbol table: nothing, or one new symbol
  at the head of its chain, whose entry flag is false and whose address, if it is a
  symbol of the data image, is the current size of the data image.
\<close>

definition installs :: "SymbolTable \<Rightarrow> Address \<Rightarrow> SymbolTable \<Rightarrow> bool" where
  "installs t dsize t' =
     (t' = t \<or>
      (\<exists>nm a e d. symb_lookup t nm = None \<and> (d \<longrightarrow> a = dsize \<and> \<not> e)
         \<and> t' = t(symb_hash nm := \<lparr>name = nm, rep_word = symb_rep_word a e, is_extern = e,
                                     is_entry = False, is_data = d\<rparr> # t (symb_hash nm))))"

section \<open>Tables built by installing symbols\<close>

text \<open>
  The symbol tables that the assembler can reach: the table of \<^verbatim>\<open>intlz_symbt\<close>, a
  table after one more successful call of \<^verbatim>\<open>symb_inst\<close>, and a table whose symbols
  were updated in place through the pointers of \<^verbatim>\<open>symb_lookup\<close> (\<^verbatim>\<open>inc_data\<close>, the
  entry flag), which changes neither the names nor their places in the chains. The
  list holds the names in the order of their installation, which for a source file
  is the order of the lines that declare them.
\<close>

inductive built_by :: "string list \<Rightarrow> SymbolTable \<Rightarrow> bool" where
  built_empty: "built_by [] intlz_symbt"
| built_inst: "built_by names table \<Longrightarrow>
     symb_inst True table nm rep_w is_ext is_ent is_dat = (ALL_GOOD, table') \<Longrightarrow>
     built_by (names @ [nm]) table'"
| built_update: "built_by names table \<Longrightarrow>
     (\<forall>i. map name (table' i) = map name (table i)) \<Longrightarrow>
     built_by names table'"

text \<open>The symbol that \<^verbatim>\<open>symb_lookup\<close> finds for the name has its entry flag set.\<close>

definition entry_marked :: "SymbolTable \<Rightarrow> string \<Rightarrow> bool" where
  "entry_marked table nm =
     (case symb_lookup table nm of None \<Rightarrow> False | Some symb \<Rightarrow> is_entry symb)"

text \<open>
  A table with the two entry symbols \<^verbatim>\<open>B\<close> (address 100) and \<^verbatim>\<open>A\<close> (address 101),
  installed in this order.
\<close>

definition B_symb :: Symbol where
  "B_symb = \<lparr>name = ''B'', rep_word = 802, is_extern = False, is_entry = True, is_data = False\<rparr>"

definition A_symb :: Symbol where
  "A_symb = \<lparr>name = ''A'', rep_word = 810, is_extern = False, is_entry = True, is_data = False\<rparr>"

definition two_entries_table :: SymbolTable where
  "two_entries_table = intlz_symbt(symb_hash ''B'' := [B_symb], symb_hash ''A'' := [A_symb])"

section \<open>The statements of a source text and its references to external symbols\<close>

text \<open>
  The definitions of this section are not functions of the program. They describe a
  source text in the words of the specification, to state where the words of an
  instruction lie in the code image and in which order the references to external
  symbols appear in the text.

  The statement of a line: the key word and the argument line after it, a label
  before the key word being left out. A comment, a blank line and a line with a
  label only have no statement.
\<close>

definition statement_of :: "string \<Rightarrow> (string \<times> string) option" where
  "statement_of line =
     (if line \<noteq> [] \<and> hd line = CHR '';'' then None
      else
        (case get_token line of
           (token, line1) \<Rightarrow>
             if token = [] then None
             else if last token = CHR '':'' then
               (case get_token line1 of
                  (token2, line2) \<Rightarrow> if token2 = [] then None else Some (token2, line2))
             else Some (token, line1)))"

text \<open>The tokens of a string from left to right, a comma being a token.\<close>

function tokens :: "string \<Rightarrow> string list" where
  "tokens s = (case get_token s of (token, rest) \<Rightarrow> if token = [] then [] else token # tokens rest)"
  by pat_completeness auto
termination
  apply (relation "measure length")
   apply simp
  subgoal premises prems for s x y
  proof -
    have "length (snd (get_token s)) < length s" if "fst (get_token s) \<noteq> []"
    proof (cases "dropWhile isspace s")
      case Nil
      from that show ?thesis unfolding get_token_def Nil by simp
    next
      case (Cons c cs)
      have le: "length (c # cs) \<le> length s"
        using length_dropWhile_le [of isspace s] by (simp only: Cons)
      show ?thesis
      proof (cases "c = CHR '',''")
        case True
        with le show ?thesis unfolding get_token_def Cons by simp
      next
        case False
        then have "\<not> isspace c \<Longrightarrow> ?thesis"
          using le unfolding get_token_def Cons by (simp add: Let_def MAX_LINE_LEN_def)
        moreover have "\<not> isspace c"
          using dropWhile_eq_Cons_conv [of isspace s c cs] Cons by simp
        ultimately show ?thesis .
      qed
    qed
    moreover from prems(1) have "x = fst (get_token s)" and "y = snd (get_token s)"
      by (simp_all add: prod_eq_iff)
    ultimately show ?thesis using prems(2) by simp
  qed
  done

declare tokens.simps [simp del]

text \<open>The operands of an argument line: its tokens without the separating commas.\<close>

definition operands :: "string \<Rightarrow> string list" where
  "operands arg_line = filter (\<lambda>token. token \<noteq> '','') (tokens arg_line)"

text \<open>
  The number of code words of an operand: a register is encoded in the first word of
  the instruction, every other operand has one word of its own. The number of code
  words of a line: the first word of an instruction and the words of its operands;
  no word for a line that is not an instruction.
\<close>

definition opnd_size :: "string \<Rightarrow> nat" where
  "opnd_size token = (if reg_check token \<noteq> None then 0 else 1)"

definition inst_size :: "string \<Rightarrow> nat" where
  "inst_size line =
     (case statement_of line of
        None \<Rightarrow> 0
      | Some (key_word, arg_line) \<Rightarrow>
          if find_ass_inst key_word \<noteq> None
          then 1 + sum_list (map opnd_size (operands arg_line)) else 0)"

text \<open>The number of code words of the lines of a text.\<close>

definition code_size :: "string list \<Rightarrow> nat" where
  "code_size ls = sum_list (map inst_size ls)"

text \<open>
  A direct operand is a symbol name: not an immediate operand (\<^verbatim>\<open>#\<close>), not a relative
  one (\<^verbatim>\<open>&\<close>), not a register. A name is external in a table when the symbol found
  for it has the flag \<^verbatim>\<open>is_extern\<close>.
\<close>

definition is_direct_opnd :: "string \<Rightarrow> bool" where
  "is_direct_opnd token =
     (token \<noteq> [] \<and> hd token \<noteq> CHR ''#'' \<and> hd token \<noteq> CHR ''&'' \<and> reg_check token = None)"

definition is_external :: "SymbolTable \<Rightarrow> string \<Rightarrow> bool" where
  "is_external table nm =
     (case symb_lookup table nm of None \<Rightarrow> False | Some symb \<Rightarrow> is_extern symb)"

text \<open>
  The references to external symbols among the operands of an instruction, from left
  to right: the name and the address of the operand's word. The second argument is
  the number of code words before the word of the first operand.
\<close>

fun opnds_ext_refs :: "(string \<Rightarrow> bool) \<Rightarrow> nat \<Rightarrow> string list \<Rightarrow> ExtList" where
  "opnds_ext_refs ext k [] = []"
| "opnds_ext_refs ext k (token # rest) =
     (if is_direct_opnd token \<and> ext token then [(token, INITIAL_LOAD_ADSS + of_nat k)] else [])
     @ opnds_ext_refs ext (k + opnd_size token) rest"

text \<open>
  The references of a line, whose first word is the word number \<open>k\<close> of the code
  image, and the references of a text in the order of their appearance, line by
  line.
\<close>

definition line_ext_refs :: "(string \<Rightarrow> bool) \<Rightarrow> nat \<Rightarrow> string \<Rightarrow> ExtList" where
  "line_ext_refs ext k line =
     (case statement_of line of
        None \<Rightarrow> []
      | Some (key_word, arg_line) \<Rightarrow>
          if find_ass_inst key_word \<noteq> None
          then opnds_ext_refs ext (k + 1) (operands arg_line) else [])"

fun src_ext_refs :: "(string \<Rightarrow> bool) \<Rightarrow> nat \<Rightarrow> string list \<Rightarrow> ExtList" where
  "src_ext_refs ext k [] = []"
| "src_ext_refs ext k (l # ls) = line_ext_refs ext k l @ src_ext_refs ext (k + inst_size l) ls"

section \<open>Rules for evaluating the definitions on concrete input\<close>

lemma adss_digits_num:
  shows "adss_digits 7 a = adss_digits 6 (a div 10) @ [char_of (48 + unat (a mod 10))]"
    and "adss_digits 6 a = adss_digits 5 (a div 10) @ [char_of (48 + unat (a mod 10))]"
    and "adss_digits 5 a = adss_digits 4 (a div 10) @ [char_of (48 + unat (a mod 10))]"
    and "adss_digits 4 a = adss_digits 3 (a div 10) @ [char_of (48 + unat (a mod 10))]"
    and "adss_digits 3 a = adss_digits 2 (a div 10) @ [char_of (48 + unat (a mod 10))]"
    and "adss_digits 2 a = adss_digits 1 (a div 10) @ [char_of (48 + unat (a mod 10))]"
    and "adss_digits 1 a = [char_of (48 + unat (a mod 10))]"
  by (simp_all add: numeral_eq_Suc)

lemmas char_defs = isdigit_def isalpha_def isalnum_def isspace_def isprint_def

lemmas const_defs = INITIAL_LOAD_ADSS_def WORD_MASK_def NON_ARE_def ARE_def FUNCT_def
  DEST_REG_def DEST_ADSS_def SRC_REG_def SRC_ADSS_def OPCODE_def ARE_A_set_def ARE_R_set_def
  ARE_E_set_def MAX_SYMB_LEN_def MAX_LINE_LEN_def

lemmas fmt_defs = word_to_str_def hex_digit_at_def hex_digits_def adss_to_str_def
  adss_digits_num char_of_def bit_0 bit_Suc_0_iff dec_str.simps

lemmas tok_defs = get_token_def get_line_def symb_check_def comma_check_def
  line_end_check_def get_data_word_def get_char_string_def str_check_def str_to_long_def
  is_legal_symb_def is_reserved_def reg_check_def guide_check_def find_ass_inst_def
  inst_table_def mk_inst_def

lemmas table_defs = symb_hash_def char_to_unsigned_def symb_lookup_def symb_inst_def
  intlz_symbt_def inc_data_def inc_data_symb_def get_symb_adss_def SYMBT_HSIZE_def

lemmas scan1_defs = get_imed_opnd_def new_symb_add_1_def get_opnd_1_def inst_opnd_match_def
  get_dest_opnd_1_def get_inst_opnds_1_def creat_inst_word_def opnd_word_add_1_def
  update_code_img_1_def proc_inst_1_def proc_data_guide_def proc_string_guide_def
  proc_extern_guide_1_def proc_guidance_1_def proc_statement_1_def proc_line_1_def
  uninit_opnd_def word_list_add_def wl_size_def set_word_field_def run_1st_scan_def
  long_to_s21b_def long_to_s24b_def c_rem_def signed_modulo_int_def

lemmas scan2_defs = has_curr_word_def get_rltv_opnd_word_def uninit_word_def str_to_opnd_2_def
  proc_opnd_2_def proc_inst_2_loop.simps proc_inst_2_def proc_entry_guide_def
  proc_key_word_2_def proc_line_2_def run_2nd_scan_def ext_list_add_def

lemmas out_defs = create_ob_file_def scan_as_src_file_def as_proc_file_def form_ext_file_def
  form_ent_file_def ent_line_def

lemmas eval_defs = char_defs const_defs fmt_defs tok_defs table_defs scan1_defs scan2_defs
  out_defs Let_def

section \<open>Bit fields of a memory word\<close>

lemma smod_2_20_bounds: "- 1048576 < (k::int) smod 1048576 \<and> k smod 1048576 < 1048576"
proof -
  have "\<bar>k\<bar> mod 1048576 < 1048576" "0 \<le> \<bar>k\<bar> mod 1048576" by simp_all
  then show ?thesis
    by (cases "k < 0"; cases "k = 0") (simp_all add: signed_modulo_int_def)
qed

lemma NON_ARE_mask: "NON_ARE = push_bit 3 (mask 21)"
  by (simp add: NON_ARE_def mask_eq_exp_minus_1)

lemma ARE_mask: "ARE = mask 3"
  by (simp add: ARE_def mask_eq_exp_minus_1)

lemma bit_ARE_A_set: "bit ARE_A_set n \<longleftrightarrow> n = 2"
proof -
  have e: "ARE_A_set = push_bit 2 1" by (simp add: ARE_A_set_def)
  have "bit (push_bit 2 (1::Word)) n \<longleftrightarrow> n = 2"
    by (simp only: bit_push_bit_iff bit_1_iff possible_bit_word) auto
  then show ?thesis by (simp only: e)
qed

lemma signed_take_bit_20_of_int:
  "signed_take_bit 20 (word_of_int k :: Word) = word_of_int (signed_take_bit 20 k)"
  by transfer (simp add: signed_take_bit_take_bit)

lemma long_to_s21b_fits: "signed_take_bit 20 (long_to_s21b x) = long_to_s21b x"
  unfolding long_to_s21b_def c_rem_def signed_take_bit_20_of_int
  using smod_2_20_bounds [of "sint x"]
  by (simp add: signed_take_bit_int_eq_self)

lemma non_are_field_of_absolute_word:
  "take_bit 21 (drop_bit 3 (set_word_field ARE (set_word_field NON_ARE res v 3) ARE_A_set 0))
     = take_bit 21 v"
  unfolding set_word_field_def ARE_mask NON_ARE_mask
  by (rule bit_word_eqI) (auto simp add: bit_simps bit_ARE_A_set)

lemma are_field_of_absolute_word: "set_word_field ARE w ARE_A_set 0 AND ARE = ARE_A_set"
  unfolding set_word_field_def ARE_mask
  by (rule bit_word_eqI) (auto simp add: bit_simps bit_ARE_A_set)

lemma signed_field_of_relative_word:
  "signed_take_bit 20
     (drop_bit 3 (set_word_field ARE (set_word_field NON_ARE res (long_to_s21b x) 3) ARE_A_set 0))
   = long_to_s21b x"
proof -
  have "signed_take_bit 20
          (drop_bit 3 (set_word_field ARE (set_word_field NON_ARE res (long_to_s21b x) 3) ARE_A_set 0))
      = signed_take_bit 20 (take_bit 21
          (drop_bit 3 (set_word_field ARE (set_word_field NON_ARE res (long_to_s21b x) 3) ARE_A_set 0)))"
    by (simp add: signed_take_bit_take_bit)
  also have "\<dots> = signed_take_bit 20 (take_bit 21 (long_to_s21b x))"
    by (simp only: non_are_field_of_absolute_word)
  also have "\<dots> = signed_take_bit 20 (long_to_s21b x)"
    by (simp add: signed_take_bit_take_bit)
  finally show ?thesis by (simp only: long_to_s21b_fits)
qed

section \<open>Chains of a table built by installing symbols\<close>

lemma symb_lookup_None_iff:
  "symb_lookup t nm = None \<longleftrightarrow> nm \<notin> name ` set (t (symb_hash nm))"
  by (auto simp add: symb_lookup_def find_None_iff)

lemma built_by_chains:
  "built_by names t \<Longrightarrow>
     distinct names \<and> (\<forall>i. map name (t i) = rev (filter (\<lambda>n. symb_hash n = i) names))"
proof (induction rule: built_by.induct)
  case built_empty
  then show ?case by (simp add: intlz_symbt_def)
next
  case (built_inst names table nm rep_w is_ext is_ent is_dat table')
  from built_inst.hyps(2) have none: "symb_lookup table nm = None"
    and t': "table' = table(symb_hash nm := \<lparr>name = nm, rep_word = rep_w, is_extern = is_ext,
                        is_entry = is_ent, is_data = is_dat\<rparr> # table (symb_hash nm))"
    by (auto simp add: symb_inst_def Let_def split: if_splits)
  from none have "nm \<notin> set (map name (table (symb_hash nm)))"
    by (simp add: symb_lookup_None_iff)
  with built_inst.IH have "nm \<notin> set names"
    by auto
  with built_inst.IH show ?case
    unfolding t' by auto
next
  case (built_update names table table')
  then show ?case by simp
qed

lemma built_two_entries_table: "built_by [''B'', ''A''] two_entries_table"
proof -
  have b: "symb_inst True intlz_symbt ''B'' 802 False True False
      = (ALL_GOOD, intlz_symbt(symb_hash ''B'' := [B_symb]))"
    by (simp add: symb_inst_def symb_lookup_def intlz_symbt_def B_symb_def Let_def)
  have a: "symb_inst True (intlz_symbt(symb_hash ''B'' := [B_symb])) ''A'' 810 False True False
      = (ALL_GOOD, two_entries_table)"
    by (simp add: symb_inst_def symb_lookup_def intlz_symbt_def B_symb_def A_symb_def Let_def
        two_entries_table_def symb_hash_def char_to_unsigned_def SYMBT_HSIZE_def)
  have "built_by ([] @ [''B'']) (intlz_symbt(symb_hash ''B'' := [B_symb]))"
    by (rule built_inst [OF built_empty b])
  then have "built_by ([''B''] @ [''A'']) two_entries_table"
    by (intro built_inst [OF _ a]) simp
  then show ?thesis by simp
qed

section \<open>Properties of the symbol table\<close>

text \<open>
  C8. For a table that was built through the interface (\<^verbatim>\<open>intlz_symbt\<close>, successful
  calls of \<^verbatim>\<open>symb_inst\<close>, updates of stored symbols in place), \<^verbatim>\<open>symb_inst\<close> returns
  \<^verbatim>\<open>DUP_ERR\<close> if and only if some chain of the table holds a symbol with the given
  name, that is, if and only if the name was installed before; the flags of the new
  symbol and of the stored one play no part, nor does the success of \<^verbatim>\<open>malloc\<close>; and
  then the table is returned as it was.
\<close>

theorem symb_inst_dup_iff:
  assumes "built_by names table"
  shows "(fst (symb_inst alloc_ok table nm rep_w is_ext is_ent is_dat) = DUP_ERR
            \<longleftrightarrow> (\<exists>i. nm \<in> name ` set (table i)))
     \<and> ((\<exists>i. nm \<in> name ` set (table i)) \<longleftrightarrow> nm \<in> set names)
     \<and> (fst (symb_inst alloc_ok table nm rep_w is_ext is_ent is_dat) = DUP_ERR
            \<longrightarrow> snd (symb_inst alloc_ok table nm rep_w is_ext is_ent is_dat) = table)"
proof -
  from built_by_chains [OF assms]
  have ch: "\<And>i. map name (table i) = rev (filter (\<lambda>n. symb_hash n = i) names)"
    by auto
  have chain: "name ` set (table i) = {n \<in> set names. symb_hash n = i}" for i
  proof -
    have "name ` set (table i) = set (map name (table i))" by simp
    also have "\<dots> = {n \<in> set names. symb_hash n = i}" by (simp only: ch) auto
    finally show ?thesis .
  qed
  have any: "(\<exists>i. nm \<in> name ` set (table i)) \<longleftrightarrow> nm \<in> set names"
    by (auto simp add: chain)
  have own: "nm \<in> name ` set (table (symb_hash nm)) \<longleftrightarrow> nm \<in> set names"
    by (auto simp add: chain)
  have "fst (symb_inst alloc_ok table nm rep_w is_ext is_ent is_dat) = DUP_ERR
      \<longleftrightarrow> symb_lookup table nm \<noteq> None"
    by (simp add: symb_inst_def Let_def)
  also have "\<dots> \<longleftrightarrow> nm \<in> set names"
    by (simp add: symb_lookup_None_iff own)
  finally have dup: "fst (symb_inst alloc_ok table nm rep_w is_ext is_ent is_dat) = DUP_ERR
      \<longleftrightarrow> nm \<in> set names" .
  have same: "fst (symb_inst alloc_ok table nm rep_w is_ext is_ent is_dat) = DUP_ERR
      \<longrightarrow> snd (symb_inst alloc_ok table nm rep_w is_ext is_ent is_dat) = table"
    by (simp add: symb_inst_def Let_def)
  from dup any same show ?thesis by simp
qed

text \<open>
  The table with the entry symbols \<^verbatim>\<open>B\<close> and \<^verbatim>\<open>A\<close>: a symbol \<^verbatim>\<open>A\<close> with other flags
  is refused and the table stays as it is, a symbol \<^verbatim>\<open>C\<close> is accepted.
\<close>

theorem symb_inst_dup_iff_witness:
  "fst (symb_inst True two_entries_table ''A'' 8 True False True) = DUP_ERR
   \<and> snd (symb_inst True two_entries_table ''A'' 8 True False True) = two_entries_table
   \<and> fst (symb_inst True two_entries_table ''C'' 8 True False True) \<noteq> DUP_ERR"
proof -
  have a: "''A'' \<in> set [''B'', ''A'']" and c: "''C'' \<notin> set [''B'', ''A'']" by simp_all
  from symb_inst_dup_iff [OF built_two_entries_table, of True "''A''" 8 True False True] a
  have "fst (symb_inst True two_entries_table ''A'' 8 True False True) = DUP_ERR
      \<and> snd (symb_inst True two_entries_table ''A'' 8 True False True) = two_entries_table"
    by blast
  moreover from symb_inst_dup_iff [OF built_two_entries_table, of True "''C''" 8 True False True] c
  have "fst (symb_inst True two_entries_table ''C'' 8 True False True) \<noteq> DUP_ERR"
    by blast
  ultimately show ?thesis by simp
qed

section \<open>The scenario of a single \<^verbatim>\<open>stop\<close>\<close>

lemma scan_stop:
  "scan_as_src_file [''stop''] = (ALL_GOOD, [0x3c0004], [], [], intlz_symbt)"
  by (simp add: eval_defs fun_eq_iff)

text \<open>
  C1, as amended. For the one-line input \<^verbatim>\<open>stop\<close> both scans succeed and the object
  file consists of the header line \<^verbatim>\<open>1 0\<close> and the code line \<^verbatim>\<open>0000100 3c0004\<close>
  (opcode 15 in the bits 18 to 23, ARE = A, that is 4, in the bits 0 to 2), each
  followed by a newline; no externals file and no entries file is created.
\<close>

theorem stop_scenario:
  "as_proc_file [''stop''] =
     Some \<lparr>ob_file = ''1 0'' @ CHR 0x0A # ''0000100 3c0004'' @ [CHR 0x0A],
           ext_file = None, ent_file = None\<rparr>"
  by (simp add: as_proc_file_def scan_stop)
     (simp add: create_ob_file_def form_ext_file_def form_ent_file_def ent_symbols_def
        intlz_symbt_def wl_size_def INITIAL_LOAD_ADSS_def fmt_defs)

text \<open>
  The code line of the claim as it was stated, \<^verbatim>\<open>0000100 3c0000\<close>, is not what is
  written for the code image of the input \<^verbatim>\<open>stop\<close>: it lacks the ARE field that
  \<^verbatim>\<open>creat_inst_word\<close> sets.
\<close>

theorem stop_code_line_counterexample:
  "pnt_word_list (fst (snd (scan_as_src_file [''stop'']))) INITIAL_LOAD_ADSS
     \<noteq> ''0000100 3c0000''"
  by (simp add: scan_stop) (simp add: INITIAL_LOAD_ADSS_def fmt_defs)

section \<open>Data words at the limits of 24 signed bits\<close>

text \<open>
  C2. The statement \<^verbatim>\<open>.data -8388608, 8388607\<close> is accepted, but the word of the lower
  limit is written as \<^verbatim>\<open>000000\<close>, not as \<^verbatim>\<open>800000\<close>: \<^verbatim>\<open>long_to_s24b\<close> takes the
  remainder modulo \<open>2 ^ 23\<close>, which is 0 for \<open>- (2 ^ 23)\<close>. The upper limit is written
  as \<^verbatim>\<open>7fffff\<close>.
\<close>

theorem data_limits_words:
  "long_to_s24b (- 8388608) = 0
   \<and> proc_data_guide '' -8388608, 8388607'' (Some []) = (ALL_GOOD, Some [0, 0x7fffff])
   \<and> map word_to_str [0, 0x7fffff] = [''000000'', ''7fffff'']"
  by (simp add: eval_defs)

section \<open>What the second scan leaves unchanged\<close>

lemma proc_opnd_2_table: "symb_tab (snd (proc_opnd_2 tok cw a el st)) = symb_tab st"
  by (simp add: proc_opnd_2_def Let_def split: prod.splits adss_method.splits option.splits)

lemma proc_opnd_2_null: "snd (proc_opnd_2 tok False a el st) = st"
  by (simp add: proc_opnd_2_def has_curr_word_def split: prod.splits)

lemma proc_opnd_2_ext:
  "\<exists>new. ext_list (snd (proc_opnd_2 tok cw a el st)) = new @ ext_list st"
  by (simp add: proc_opnd_2_def Let_def ext_list_add_def
      split: prod.splits adss_method.splits option.splits)

lemma proc_inst_2_loop_inv:
  assumes "\<And>tok s. P s \<Longrightarrow> P (snd (proc_opnd_2 tok cw a el s))"
    and "P st"
  shows "P (snd (proc_inst_2_loop line is1 cw a el st))"
  using assms
proof (induction line is1 cw a el st rule: proc_inst_2_loop.induct)
  case (1 arg_line is_1st_opnd cw_given curr_inst_adss el_given st)
  obtain token line1 where t: "get_token arg_line = (token, line1)"
    by (cases "get_token arg_line") auto
  obtain res st' where p: "proc_opnd_2 token cw_given curr_inst_adss el_given st = (res, st')"
    by (cases "proc_opnd_2 token cw_given curr_inst_adss el_given st") auto
  obtain token2 line2 where t2: "get_token line1 = (token2, line2)"
    by (cases "get_token line1") auto
  have st': "P st'"
    using "1.prems"(1) [OF "1.prems"(2), of token] p by simp
  show ?case
  proof (cases "token = [] \<or> token = '','' \<or> res = INP_ERROR \<or> token2 = [] \<or> token2 \<noteq> '',''")
    case True
    then show ?thesis
      using "1.prems"(2) st' by (subst proc_inst_2_loop.simps) (auto simp add: t p t2)
  next
    case False
    then have "proc_inst_2_loop arg_line is_1st_opnd cw_given curr_inst_adss el_given st
        = proc_inst_2_loop line2 False cw_given curr_inst_adss el_given st'"
      by (subst proc_inst_2_loop.simps) (simp add: t p t2)
    moreover have "P (snd (proc_inst_2_loop line2 False cw_given curr_inst_adss el_given st'))"
      using False t p t2 st' "1.prems"(1)
      by (intro "1.IH" [of token line1 res st' token2 line2]) simp_all
    ultimately show ?thesis by simp
  qed
qed

lemma proc_inst_2_table: "symb_tab (snd (proc_inst_2 line cw el st)) = symb_tab st"
proof -
  have "symb_tab (snd (proc_inst_2_loop line True cw a el s)) = symb_tab st"
    if "symb_tab s = symb_tab st" for a s
    using that by (rule proc_inst_2_loop_inv [rotated]) (simp add: proc_opnd_2_table)
  then show ?thesis
    by (simp add: proc_inst_2_def Let_def)
qed

lemma proc_inst_2_null: "snd (proc_inst_2 line False el st) = st"
proof -
  have "snd (proc_inst_2_loop line True False a el st) = st" for a
    by (rule proc_inst_2_loop_inv [where P = "\<lambda>s. s = st"]) (simp_all add: proc_opnd_2_null)
  then show ?thesis
    by (simp add: proc_inst_2_def Let_def has_curr_word_def)
qed

lemma proc_inst_2_ext: "\<exists>new. ext_list (snd (proc_inst_2 line cw el st)) = new @ ext_list st"
proof -
  have "\<exists>new. ext_list (snd (proc_inst_2_loop line True cw a el s)) = new @ ext_list st"
    if "ext_list s = ext_list st" for a s
  proof (rule proc_inst_2_loop_inv [where P = "\<lambda>s. \<exists>new. ext_list s = new @ ext_list st"])
    fix tok and s :: scan2_state
    assume "\<exists>new. ext_list s = new @ ext_list st"
    then obtain new where n: "ext_list s = new @ ext_list st" ..
    obtain new' where "ext_list (snd (proc_opnd_2 tok cw a el s)) = new' @ ext_list s"
      using proc_opnd_2_ext by blast
    with n show "\<exists>new. ext_list (snd (proc_opnd_2 tok cw a el s)) = new @ ext_list st"
      by simp
  next
    from that show "\<exists>new. ext_list s = new @ ext_list st" by simp
  qed
  then show ?thesis
    by (simp add: proc_inst_2_def Let_def)
qed

lemma names_set_entry_chain: "map name (set_entry_chain nm chain) = map name chain"
  by (induction chain) simp_all

lemma proc_entry_guide_names:
  "map name (snd (proc_entry_guide line t) i) = map name (t i)"
  by (simp add: proc_entry_guide_def names_set_entry_chain split: prod.splits option.splits)

lemma proc_key_word_2_names:
  "map name (symb_tab (snd (proc_key_word_2 token line cw el st)) i) = map name (symb_tab st i)"
  by (simp add: proc_key_word_2_def proc_entry_guide_names proc_inst_2_table split_beta)

lemma proc_key_word_2_null:
  "code_img (snd (proc_key_word_2 token line False el st)) = code_img st"
  "ext_list (snd (proc_key_word_2 token line False el st)) = ext_list st"
  by (simp_all add: proc_key_word_2_def proc_inst_2_null split_beta)

lemma proc_key_word_2_ext:
  "\<exists>new. ext_list (snd (proc_key_word_2 token line cw el st)) = new @ ext_list st"
  by (simp add: proc_key_word_2_def proc_inst_2_ext split_beta)

lemma proc_line_2_names:
  "map name (symb_tab (snd (proc_line_2 line cw el st)) i) = map name (symb_tab st i)"
  by (simp add: proc_line_2_def proc_key_word_2_names split_beta)

lemma proc_line_2_null:
  "code_img (snd (proc_line_2 line False el st)) = code_img st"
  "ext_list (snd (proc_line_2 line False el st)) = ext_list st"
  by (simp_all add: proc_line_2_def proc_key_word_2_null split_beta)

lemma proc_line_2_ext:
  "\<exists>new. ext_list (snd (proc_line_2 line cw el st)) = new @ ext_list st"
  by (simp add: proc_line_2_def proc_key_word_2_ext split_beta)

lemma scan_lines_2_names:
  "map name (symb_tab (snd (scan_lines_2 ls s st)) i) = map name (symb_tab st i)"
proof (induction ls arbitrary: s st)
  case Nil
  then show ?case by simp
next
  case (Cons l ls)
  show ?case
    by (simp add: get_line_def Cons.IH proc_line_2_names split_beta)
qed

lemma scan_lines_2_error:
  "fst (scan_lines_2 ls INP_ERROR st) = INP_ERROR
   \<and> code_img (snd (scan_lines_2 ls INP_ERROR st)) = code_img st
   \<and> ext_list (snd (scan_lines_2 ls INP_ERROR st)) = ext_list st"
  by (induction ls arbitrary: st) (simp_all add: get_line_def proc_line_2_null)

lemma scan_lines_2_status:
  "fst (scan_lines_2 ls s st) = s \<or> fst (scan_lines_2 ls s st) = INP_ERROR"
proof (induction ls arbitrary: s st)
  case Nil
  then show ?case by simp
next
  case (Cons l ls)
  show ?case
    using Cons.IH scan_lines_2_error
    by (auto simp add: get_line_def split: prod.splits)
qed

lemma scan_lines_2_append:
  "scan_lines_2 (xs @ ys) s st =
     (case scan_lines_2 xs s st of (s', st') \<Rightarrow> scan_lines_2 ys s' st')"
  by (induction xs arbitrary: s st) (simp_all add: get_line_def split: prod.splits)

lemma scan_lines_2_ext:
  "\<exists>new. ext_list (snd (scan_lines_2 ls s st)) = new @ ext_list st"
proof (induction ls arbitrary: s st)
  case Nil
  then show ?case by simp
next
  case (Cons l ls)
  have step: "\<exists>new. ext_list (snd (scan_lines_2 ls s' st')) = new @ ext_list st"
    if "\<exists>new. ext_list st' = new @ ext_list st" for s' st'
    using that Cons.IH [of s' st'] by auto
  have a: "\<exists>new. ext_list (snd (proc_line_2 line cw el st)) = new @ ext_list st" for line cw el
    by (rule proc_line_2_ext)
  show ?case
    using step a
    by (simp add: get_line_def split: prod.splits) (metis append_Nil snd_conv)
qed

section \<open>The second scan after an error of the first scan\<close>

text \<open>
  C9. When the first scan returned \<^verbatim>\<open>INP_ERROR\<close>, the second scan of any source leaves
  every word of the code image and the list of external references as they were; it
  still goes through all lines, and its status stays \<^verbatim>\<open>INP_ERROR\<close>.
\<close>

theorem second_scan_after_error_frame:
  "fst (run_2nd_scan src code table INP_ERROR elist) = INP_ERROR
   \<and> code_img (snd (run_2nd_scan src code table INP_ERROR elist)) = code
   \<and> ext_list (snd (run_2nd_scan src code table INP_ERROR elist)) = elist"
  using scan_lines_2_error
    [of src "\<lparr>code_img = code, curr_word = 0, IC = INITIAL_LOAD_ADSS, ext_list = elist,
              symb_tab = table\<rparr>"]
  by (simp add: run_2nd_scan_def)

theorem second_scan_after_error_frame_witness:
  "code_img (snd (run_2nd_scan [''HERE: jmp &HERE'', ''jmp NOWHERE''] [0x24100c, 0]
       (symb_tab here_state) INP_ERROR [])) = [0x24100c, 0]
   \<and> ext_list (snd (run_2nd_scan [''HERE: jmp &HERE'', ''jmp NOWHERE''] [0x24100c, 0]
       (symb_tab here_state) INP_ERROR [])) = []"
  using second_scan_after_error_frame
    [of "[''HERE: jmp &HERE'', ''jmp NOWHERE'']" "[0x24100c, 0]" "symb_tab here_state" "[]"]
  by simp

section \<open>Entries in the second scan\<close>

lemma find_set_entry_chain:
  "find (\<lambda>symb. nm = name symb) (set_entry_chain nm chain)
     = map_option (\<lambda>symb. symb\<lparr>is_entry := True\<rparr>) (find (\<lambda>symb. nm = name symb) chain)"
  by (induction chain) simp_all

lemma get_token_not_comment:
  assumes "get_token line = (tok, rest)" "tok \<noteq> []" "hd tok \<noteq> CHR '';''"
  shows "\<not> (line \<noteq> [] \<and> hd line = CHR '';'')"
proof
  assume a: "line \<noteq> [] \<and> hd line = CHR '';''"
  then obtain cs where l: "line = CHR '';'' # cs" by (cases line) auto
  from assms show False
    unfolding l get_token_def by (auto simp add: isspace_def Let_def MAX_LINE_LEN_def split: if_splits)
qed

text \<open>
  C10. After an input error \<^verbatim>\<open>run_2nd_scan\<close> still calls \<^verbatim>\<open>proc_line_2\<close> for every
  line, with \<^verbatim>\<open>NULL\<close> for the code image and the list of external references. A line
  whose tokens are \<^verbatim>\<open>.entry\<close> and the name of a symbol that is in the table and not
  external then sets the entry flag of that symbol: the symbol table is mutated in
  the error state.
\<close>

theorem entry_marked_in_error_state:
  assumes "length line \<le> MAX_LINE_LEN"
    and "get_token line = (''.entry'', rest)"
    and "get_token rest = (S, rest')" and "S \<noteq> []"
    and "symb_lookup (symb_tab st) S = Some symb" and "\<not> is_extern symb"
  shows "symb_lookup (symb_tab (snd (scan_lines_2 [line] INP_ERROR st))) S
           = Some (symb\<lparr>is_entry := True\<rparr>)"
proof -
  have nc: "\<not> (line \<noteq> [] \<and> hd line = CHR '';'')"
    using get_token_not_comment [OF assms(2)] by simp
  have "snd (scan_lines_2 [line] INP_ERROR st) = snd (proc_line_2 line False False st)"
    using assms(1) by (simp add: get_line_def)
  also have "\<dots> = snd (proc_key_word_2 ''.entry'' rest False False st)"
    unfolding proc_line_2_def using nc assms(2) by auto
  also have "\<dots> = st\<lparr>symb_tab := snd (proc_entry_guide rest (symb_tab st))\<rparr>"
    by (simp add: proc_key_word_2_def split_beta)
  also have "snd (proc_entry_guide rest (symb_tab st))
      = (symb_tab st)(symb_hash S := set_entry_chain S (symb_tab st (symb_hash S)))"
    using assms(3-6) by (simp add: proc_entry_guide_def)
  finally show ?thesis
    using assms(5) by (simp add: symb_lookup_def find_set_entry_chain)
qed

theorem entry_marked_in_error_state_witness:
  "symb_lookup (symb_tab (snd (scan_lines_2 [''.entry HERE''] INP_ERROR here_state))) ''HERE''
     = Some (here_symb\<lparr>is_entry := True\<rparr>)"
proof -
  have t1: "get_token ''.entry HERE'' = (''.entry'', '' HERE'')"
    by (simp add: get_token_def isspace_def MAX_LINE_LEN_def)
  have t2: "get_token '' HERE'' = (''HERE'', [])"
    by (simp add: get_token_def isspace_def MAX_LINE_LEN_def)
  have l: "symb_lookup (symb_tab here_state) ''HERE'' = Some here_symb"
    by (simp add: here_state_def here_symb_def symb_lookup_def)
  have e: "\<not> is_extern here_symb"
    by (simp add: here_symb_def)
  have n: "length ''.entry HERE'' \<le> MAX_LINE_LEN"
    by (simp add: MAX_LINE_LEN_def)
  show ?thesis
    by (rule entry_marked_in_error_state [OF n t1 t2 _ l e]) simp
qed

section \<open>Data symbols after the first scan\<close>

lemma installs_refl: "installs t ds t"
  by (simp add: installs_def)

lemma new_symb_add_1_installs:
  assumes "new_symb_add_1 t nm a e d = (st, t')" and "d \<longrightarrow> a = ds \<and> \<not> e"
  shows "installs t ds t'"
proof (cases "symb_check nm = INP_ERROR \<or> symb_lookup t nm \<noteq> None")
  case True
  with assms(1) have "t' = t"
    by (auto simp add: new_symb_add_1_def symb_inst_def Let_def split: if_splits)
  then show ?thesis by (simp add: installs_def)
next
  case False
  with assms(1) have "t' = t(symb_hash nm := \<lparr>name = nm, rep_word = symb_rep_word a e, is_extern = e,
                                     is_entry = False, is_data = d\<rparr> # t (symb_hash nm))"
    by (auto simp add: new_symb_add_1_def symb_inst_def Let_def symb_rep_word_def split: if_splits)
  with False assms(2) show ?thesis
    unfolding installs_def
    by (intro disjI2 exI [of _ nm] exI [of _ a] exI [of _ e] exI [of _ d]) simp
qed

lemma proc_extern_guide_1_installs:
  "proc_extern_guide_1 line t = (st, t') \<Longrightarrow> installs t ds t'"
  by (auto simp add: proc_extern_guide_1_def installs_refl split: prod.splits if_splits
      intro: new_symb_add_1_installs)

lemma proc_inst_1_installs:
  "proc_inst_1 arg nm sy dec code t = (st, code', t') \<Longrightarrow> installs t ds t'"
  by (auto simp add: proc_inst_1_def installs_refl split: prod.splits if_splits option.splits
      intro: new_symb_add_1_installs)

lemma proc_guidance_1_installs:
  "proc_guidance_1 arg stmnt sy dec (Some d) t = (st, d', t') \<Longrightarrow> installs t (wl_size d) t'"
  by (auto simp add: proc_guidance_1_def installs_refl
      split: prod.splits if_splits option.splits guide_num.splits
      intro: new_symb_add_1_installs proc_extern_guide_1_installs)

lemma proc_statement_1_installs:
  "proc_statement_1 line key sy dec code (Some d) t = (st, code', d', t') \<Longrightarrow> installs t (wl_size d) t'"
  by (auto simp add: proc_statement_1_def installs_refl split: prod.splits if_splits
      intro: proc_inst_1_installs proc_guidance_1_installs)

lemma proc_line_1_installs:
  "proc_line_1 line code (Some d) t = (st, code', d', t') \<Longrightarrow> installs t (wl_size d) t'"
  by (auto simp add: proc_line_1_def installs_refl split: prod.splits if_splits
      intro: proc_statement_1_installs)


lemma scan_lines_1_append:
  "scan_lines_1 (xs @ ys) st c d t =
     (case scan_lines_1 xs st c d t of (st', c', d', t') \<Rightarrow> scan_lines_1 ys st' c' d' t')"
  by (induction xs arbitrary: st c d t) (auto simp add: get_line_def split: prod.splits)

lemma scan_lines_1_status:
  "scan_lines_1 ls s c d t = (ALL_GOOD, c', d', t') \<Longrightarrow> s = ALL_GOOD"
proof (induction ls arbitrary: s c d t)
  case Nil
  then show ?case by simp
next
  case (Cons l ls)
  show ?case
  proof (rule ccontr)
    assume ne: "s \<noteq> ALL_GOOD"
    from Cons.prems obtain s2 c2 d2 t2 where "scan_lines_1 ls s2 c2 d2 t2 = (ALL_GOOD, c', d', t')"
      and "s2 \<noteq> ALL_GOOD"
      using ne by (auto simp add: get_line_def split: prod.splits if_splits)
    with Cons.IH show False by blast
  qed
qed

lemma scan_lines_1_prefix:
  assumes "scan_lines_1 (xs @ ys) ALL_GOOD c d t = (ALL_GOOD, c', d', t')"
  shows "\<exists>c1 d1 t1. scan_lines_1 xs ALL_GOOD c d t = (ALL_GOOD, c1, d1, t1)
           \<and> scan_lines_1 ys ALL_GOOD c1 d1 t1 = (ALL_GOOD, c', d', t')"
proof -
  obtain s1 c1 d1 t1 where p: "scan_lines_1 xs ALL_GOOD c d t = (s1, c1, d1, t1)"
    by (cases "scan_lines_1 xs ALL_GOOD c d t") auto
  with assms have q: "scan_lines_1 ys s1 c1 d1 t1 = (ALL_GOOD, c', d', t')"
    by (simp add: scan_lines_1_append)
  then have "s1 = ALL_GOOD" by (rule scan_lines_1_status)
  with p q show ?thesis by simp
qed

lemma scan_lines_1_last:
  assumes "scan_lines_1 [l] ALL_GOOD c d t = (ALL_GOOD, c', d', t')"
  shows "installs t (wl_size d) t'"
  using assms
  by (auto simp add: get_line_def installs_refl split: prod.splits if_splits
      intro: proc_line_1_installs)


lemma symb_lookup_install:
  "symb_lookup (t(symb_hash n := new # t (symb_hash n))) m =
     (if m = name new \<and> symb_hash m = symb_hash n then Some new else symb_lookup t m)"
  by (simp add: symb_lookup_def)

lemma data_symbol_declared:
  assumes "scan_lines_1 src ALL_GOOD [] [] intlz_symbt = (ALL_GOOD, c, d, t)"
    and "symb_lookup t nm = Some s" and "is_data s"
  shows "\<exists>k ck dk tk. k < length src
           \<and> scan_lines_1 (take k src) ALL_GOOD [] [] intlz_symbt = (ALL_GOOD, ck, dk, tk)
           \<and> symb_lookup tk nm = None
           \<and> symb_lookup (snd (snd (snd (scan_lines_1 (take (Suc k) src) ALL_GOOD [] [] intlz_symbt)))) nm
               = Some s
           \<and> rep_word s = symb_rep_word (wl_size dk) False"
  using assms
proof (induction src arbitrary: c d t rule: rev_induct)
  case Nil
  then show ?case by (auto simp add: symb_lookup_def intlz_symbt_def)
next
  case (snoc l src)
  from scan_lines_1_prefix [OF snoc.prems(1)] obtain c1 d1 t1
    where p: "scan_lines_1 src ALL_GOOD [] [] intlz_symbt = (ALL_GOOD, c1, d1, t1)"
      and q: "scan_lines_1 [l] ALL_GOOD c1 d1 t1 = (ALL_GOOD, c, d, t)"
    by blast
  have ins: "installs t1 (wl_size d1) t"
    using q by (rule scan_lines_1_last)
  have old: ?case if l1: "symb_lookup t1 nm = Some s"
  proof -
    from snoc.IH [OF p l1 snoc.prems(3)] obtain k ck dk tk where
      k: "k < length src"
      and a: "scan_lines_1 (take k src) ALL_GOOD [] [] intlz_symbt = (ALL_GOOD, ck, dk, tk)"
      and b: "symb_lookup tk nm = None"
      and c: "symb_lookup (snd (snd (snd (scan_lines_1 (take (Suc k) src) ALL_GOOD [] [] intlz_symbt)))) nm = Some s"
      and e: "rep_word s = symb_rep_word (wl_size dk) False"
      by blast
    from k have "take k (src @ [l]) = take k src" "take (Suc k) (src @ [l]) = take (Suc k) src"
      by simp_all
    with k a b c e show ?thesis
      by (intro exI [of _ k] exI [of _ ck] exI [of _ dk] exI [of _ tk]) simp
  qed
  from ins show ?case
    unfolding installs_def
  proof (elim disjE exE conjE)
    assume "t = t1"
    with snoc.prems(2) show ?case by (intro old) simp
  next
    fix n a e dt
    assume none: "symb_lookup t1 n = None"
      and da: "dt \<longrightarrow> a = wl_size d1 \<and> \<not> e"
      and t: "t = t1(symb_hash n := \<lparr>name = n, rep_word = symb_rep_word a e, is_extern = e,
                                     is_entry = False, is_data = dt\<rparr> # t1 (symb_hash n))"
    have lk: "symb_lookup t nm =
        (if nm = n then Some \<lparr>name = n, rep_word = symb_rep_word a e, is_extern = e,
                                is_entry = False, is_data = dt\<rparr>
         else symb_lookup t1 nm)"
      unfolding t symb_lookup_install by auto
    show ?case
    proof (cases "nm = n")
      case True
      with snoc.prems(2) lk have s: "s = \<lparr>name = n, rep_word = symb_rep_word a e, is_extern = e,
                                     is_entry = False, is_data = dt\<rparr>"
        by simp
      with snoc.prems(3) da have "rep_word s = symb_rep_word (wl_size d1) False"
        by simp
      moreover have "symb_lookup (snd (snd (snd (scan_lines_1 (src @ [l]) ALL_GOOD [] [] intlz_symbt)))) nm = Some s"
        using snoc.prems(1,2) by simp
      ultimately show ?thesis
        using p none True
        by (intro exI [of _ "length src"] exI [of _ c1] exI [of _ d1] exI [of _ t1]) simp
    next
      case False
      with snoc.prems(2) lk have "symb_lookup t1 nm = Some s"
        by simp
      then show ?thesis by (rule old)
    qed
  qed
qed


lemma symb_hash_less: "symb_hash str < SYMBT_HSIZE"
  by (simp add: symb_hash_def SYMBT_HSIZE_def)

lemma find_map_inc_data:
  "find (\<lambda>symb. nm = name symb) (map (inc_data_symb v) chain)
     = map_option (inc_data_symb v) (find (\<lambda>symb. nm = name symb) chain)"
  by (induction chain) (simp_all add: inc_data_symb_def)

lemma symb_lookup_inc_data:
  "symb_lookup (inc_data t v) nm = map_option (inc_data_symb v) (symb_lookup t nm)"
  by (simp add: symb_lookup_def inc_data_def symb_hash_less find_map_inc_data)

lemma bit_ARE_R_set: "bit ARE_R_set n \<longleftrightarrow> n = 1"
proof -
  have e: "ARE_R_set = push_bit 1 1" by (simp add: ARE_R_set_def)
  have "bit (push_bit 1 (1::Word)) n \<longleftrightarrow> n = 1"
    by (simp only: bit_push_bit_iff bit_1_iff possible_bit_word) auto
  then show ?thesis by (simp only: e)
qed

lemma adss_of_rep_word: "drop_bit 3 (symb_rep_word a False) = take_bit 21 a"
  unfolding symb_rep_word_def set_word_field_def ARE_mask NON_ARE_mask
  by (rule bit_word_eqI) (auto simp add: bit_simps bit_ARE_R_set)

lemma adss_after_shift_bits:
  "drop_bit 3 (set_word_field NON_ARE (symb_rep_word a False) (take_bit 21 a + v) 3)
     = take_bit 21 (take_bit 21 a + v)"
  unfolding symb_rep_word_def set_word_field_def ARE_mask NON_ARE_mask
  by (rule bit_word_eqI) (auto simp add: bit_simps bit_ARE_R_set)

lemma are_after_shift: "set_word_field NON_ARE w x 3 AND ARE = w AND ARE"
  unfolding set_word_field_def ARE_mask NON_ARE_mask
  by (rule bit_word_eqI) (auto simp add: bit_simps)

lemma unat_take_bit_21_of_nat: "unat (take_bit 21 (of_nat n :: Word)) = n mod 2 ^ 21"
proof -
  have "unat (take_bit 21 (of_nat n :: Word)) = take_bit 21 (take_bit 64 n)"
    by (simp add: unsigned_take_bit_eq unsigned_of_nat)
  also have "\<dots> = take_bit 21 n" by simp
  finally show ?thesis by (simp add: take_bit_eq_mod)
qed

lemma unat_adss_after_shift:
  "unat (drop_bit 3 (set_word_field NON_ARE (symb_rep_word (of_nat n) False)
           (take_bit 21 (of_nat n) + of_nat m) 3))
     = (n + m) mod 2 ^ 21"
proof -
  have "take_bit 21 (of_nat n :: Word) + of_nat m = of_nat (take_bit 21 n + m)"
    by (simp add: take_bit_of_nat)
  then have "unat (take_bit 21 (take_bit 21 (of_nat n :: Word) + of_nat m))
      = (take_bit 21 n + m) mod 2 ^ 21"
    by (simp only: unat_take_bit_21_of_nat)
  also have "\<dots> = (n + m) mod 2 ^ 21"
    by (simp add: take_bit_eq_mod mod_simps)
  finally show ?thesis
    by (simp only: adss_after_shift_bits)
qed

text \<open>
  C6, as amended. After an error-free first scan, shift included, every symbol of the
  table whose data flag is set was installed by a line \<open>k\<close> of the source (it is not in
  the table after the first \<open>k\<close> lines and is in it after \<open>k + 1\<close> lines), and its
  address is the size that the data image had before that line, the symbol's
  zero-based offset in the data image, plus the size of the code image plus 100,
  modulo \<open>2 ^ 21\<close>, the width of the address field; its ARE field is the one it had
  before the shift.
\<close>

theorem data_symbol_address_after_shift:
  assumes "run_1st_scan src [] [] intlz_symbt = (ALL_GOOD, code, data, table)"
    and "symb_lookup table nm = Some s" and "is_data s"
  shows "\<exists>k code_k data_k table_k s0. k < length src
           \<and> scan_lines_1 (take k src) ALL_GOOD [] [] intlz_symbt = (ALL_GOOD, code_k, data_k, table_k)
           \<and> symb_lookup table_k nm = None
           \<and> symb_lookup (snd (snd (snd (scan_lines_1 (take (Suc k) src) ALL_GOOD [] [] intlz_symbt)))) nm
               = Some s0
           \<and> unat (get_symb_adss s) = (length data_k + length code + 100) mod 2 ^ 21
           \<and> rep_word s AND ARE = rep_word s0 AND ARE"
proof -
  obtain t0 where sc: "scan_lines_1 src ALL_GOOD [] [] intlz_symbt = (ALL_GOOD, code, data, t0)"
    and tab: "table = inc_data t0 (wl_size code + INITIAL_LOAD_ADSS)"
    using assms(1) by (auto simp add: run_1st_scan_def split: prod.splits)
  from assms(2) obtain s0 where l0: "symb_lookup t0 nm = Some s0"
    and s: "s = inc_data_symb (wl_size code + INITIAL_LOAD_ADSS) s0"
    unfolding tab symb_lookup_inc_data by auto
  from s assms(3) have d0: "is_data s0"
    by (auto simp add: inc_data_symb_def split: if_splits)
  from data_symbol_declared [OF sc l0 d0] obtain k ck dk tk where
    k: "k < length src"
    and a: "scan_lines_1 (take k src) ALL_GOOD [] [] intlz_symbt = (ALL_GOOD, ck, dk, tk)"
    and b: "symb_lookup tk nm = None"
    and c: "symb_lookup (snd (snd (snd (scan_lines_1 (take (Suc k) src) ALL_GOOD [] [] intlz_symbt)))) nm = Some s0"
    and e: "rep_word s0 = symb_rep_word (wl_size dk) False"
    by blast
  have w: "rep_word s = set_word_field NON_ARE (symb_rep_word (wl_size dk) False)
             (take_bit 21 (wl_size dk) + (wl_size code + INITIAL_LOAD_ADSS)) 3"
    using s d0 e by (simp add: inc_data_symb_def get_symb_adss_def adss_of_rep_word)
  have v: "wl_size code + INITIAL_LOAD_ADSS = of_nat (length code + 100)"
    by (simp add: wl_size_def INITIAL_LOAD_ADSS_def)
  have "unat (get_symb_adss s) = (length dk + (length code + 100)) mod 2 ^ 21"
    by (simp only: get_symb_adss_def w v) (simp only: wl_size_def unat_adss_after_shift)
  then have adss: "unat (get_symb_adss s) = (length dk + length code + 100) mod 2 ^ 21"
    by (simp add: add.assoc)
  have are: "rep_word s AND ARE = rep_word s0 AND ARE"
    unfolding w e by (rule are_after_shift)
  from k a b c adss are show ?thesis
    by (intro exI [of _ k] exI [of _ ck] exI [of _ dk] exI [of _ tk] exI [of _ s0]) simp
qed

lemma run_entry_data_source:
  "run_1st_scan entry_data_source [] [] intlz_symbt
     = (ALL_GOOD, [0x3c0004], [5, - 1], intlz_symbt(symb_hash ''L'' := [L_symb]))"
  by (simp add: entry_data_source_def L_symb_def eval_defs fun_eq_iff)

theorem data_symbol_address_after_shift_witness:
  "\<exists>k code_k data_k table_k s0. k < length entry_data_source
     \<and> scan_lines_1 (take k entry_data_source) ALL_GOOD [] [] intlz_symbt
          = (ALL_GOOD, code_k, data_k, table_k)
     \<and> symb_lookup table_k ''L'' = None
     \<and> symb_lookup (snd (snd (snd (scan_lines_1 (take (Suc k) entry_data_source) ALL_GOOD [] []
            intlz_symbt)))) ''L'' = Some s0
     \<and> unat (get_symb_adss L_symb) = (length data_k + length [0x3c0004 :: Word] + 100) mod 2 ^ 21
     \<and> rep_word L_symb AND ARE = rep_word s0 AND ARE"
proof -
  have l: "symb_lookup (intlz_symbt(symb_hash ''L'' := [L_symb])) ''L'' = Some L_symb"
    by (simp add: symb_lookup_def L_symb_def)
  have d: "is_data L_symb"
    by (simp add: L_symb_def)
  show ?thesis
    by (rule data_symbol_address_after_shift [OF run_entry_data_source l d])
qed

lemma proc_line_1_stop:
  "proc_line_1 ''stop'' (Some c) (Some d) t = (ALL_GOOD, Some (c @ [0x3c0004]), Some d, t)"
  by (simp add: scan1_defs tok_defs char_defs const_defs Let_def)

lemma scan_lines_1_stops:
  "scan_lines_1 (replicate n ''stop'' @ rest) ALL_GOOD c d t
     = scan_lines_1 rest ALL_GOOD (c @ replicate n 0x3c0004) d t"
proof (induction n arbitrary: c)
  case 0
  then show ?case by simp
next
  case (Suc n)
  have "scan_lines_1 (replicate (Suc n) ''stop'' @ rest) ALL_GOOD c d t
      = scan_lines_1 (replicate n ''stop'' @ rest) ALL_GOOD (c @ [0x3c0004]) d t"
    by (simp add: get_line_def MAX_LINE_LEN_def proc_line_1_stop)
  also have "\<dots> = scan_lines_1 rest ALL_GOOD ((c @ [0x3c0004]) @ replicate n 0x3c0004) d t"
    by (rule Suc.IH)
  finally show ?case by (simp add: replicate_app_Cons_same)
qed

lemma scan_data_line:
  "scan_lines_1 [''X: .data 1''] ALL_GOOD c [] intlz_symbt
     = (ALL_GOOD, c, [1],
        intlz_symbt(symb_hash ''X'' := [\<lparr>name = ''X'', rep_word = 2, is_extern = False,
                                          is_entry = False, is_data = True\<rparr>]))"
  by (simp add: eval_defs fun_eq_iff)

lemma run_stops_data_line:
  "run_1st_scan (replicate n ''stop'' @ [''X: .data 1'']) [] [] intlz_symbt
     = (ALL_GOOD, replicate n 0x3c0004, [1],
        inc_data (intlz_symbt(symb_hash ''X'' := [\<lparr>name = ''X'', rep_word = 2, is_extern = False,
                                          is_entry = False, is_data = True\<rparr>]))
          (wl_size (replicate n 0x3c0004) + INITIAL_LOAD_ADSS))"
  by (simp only: run_1st_scan_def scan_lines_1_stops scan_data_line append_Nil prod.case)

text \<open>
  The claim as it was stated fails for a source of 2097052 lines \<^verbatim>\<open>stop\<close> followed by
  \<^verbatim>\<open>X: .data 1\<close>: the first scan reports no error, \<^verbatim>\<open>X\<close> is the symbol of the first
  word of the data image, the code image has 2097052 words, and the address of \<^verbatim>\<open>X\<close>
  after the shift is 0, not 0 + 2097052 + 100: the sum does not fit the 21 bits of
  the address field.
\<close>

theorem data_symbol_address_counterexample:
  "(case run_1st_scan (replicate 2097052 ''stop'' @ [''X: .data 1'']) [] [] intlz_symbt of
      (st, code, data, table) \<Rightarrow>
        st = ALL_GOOD \<and> length code = 2097052 \<and> data = [1]
        \<and> map_option is_data (symb_lookup table ''X'') = Some True
        \<and> map_option get_symb_adss (symb_lookup table ''X'') = Some 0)"
proof -
  have l: "symb_lookup
      (inc_data (intlz_symbt(symb_hash ''X'' := [\<lparr>name = ''X'', rep_word = 2, is_extern = False,
                                          is_entry = False, is_data = True\<rparr>])) v) ''X''
      = Some (inc_data_symb v \<lparr>name = ''X'', rep_word = 2, is_extern = False,
                                 is_entry = False, is_data = True\<rparr>)" for v
    by (simp only: symb_lookup_inc_data) (simp add: symb_lookup_def)
  show ?thesis
    by (simp only: run_stops_data_line prod.case l)
       (simp add: inc_data_symb_def get_symb_adss_def set_word_field_def NON_ARE_def wl_size_def
          INITIAL_LOAD_ADSS_def)
qed


section \<open>The order of the entries file\<close>

lemma names_of_entries:
  assumes "distinct (map name chain)"
  shows "map name (filter is_entry chain)
     = filter (\<lambda>n. case find (\<lambda>symb. n = name symb) chain of None \<Rightarrow> False | Some symb \<Rightarrow> is_entry symb)
         (map name chain)"
  using assms
proof (induction chain)
  case Nil
  then show ?case by simp
next
  case (Cons s chain)
  have "filter (\<lambda>n. case find (\<lambda>symb. n = name symb) (s # chain) of None \<Rightarrow> False | Some symb \<Rightarrow> is_entry symb)
          (map name chain)
      = filter (\<lambda>n. case find (\<lambda>symb. n = name symb) chain of None \<Rightarrow> False | Some symb \<Rightarrow> is_entry symb)
          (map name chain)"
  proof (intro filter_cong refl)
    fix n
    assume n: "n \<in> set (map name chain)"
    from Cons.prems have "name s \<notin> set (map name chain)" by simp
    with n have "n \<noteq> name s" by blast
    then show "(case find (\<lambda>symb. n = name symb) (s # chain) of None \<Rightarrow> False | Some symb \<Rightarrow> is_entry symb)
        = (case find (\<lambda>symb. n = name symb) chain of None \<Rightarrow> False | Some symb \<Rightarrow> is_entry symb)"
      by simp
  qed
  with Cons show ?case by simp
qed

lemma pnt_ent_symbols_rest:
  "pnt_ent_symbols False es = concat (map (\<lambda>symb. CHR 0x0A # ent_line symb) es)"
  by (induction es) simp_all

lemma join_lines_Cons: "join_lines (l # ls) = l @ concat (map (\<lambda>m. CHR 0x0A # m) ls)"
  by (induction ls arbitrary: l) simp_all

lemma pnt_ent_symbols_lines: "pnt_ent_symbols True es = join_lines (map ent_line es)"
  by (cases es) (simp_all add: join_lines_Cons pnt_ent_symbols_rest comp_def)

text \<open>
  C4, as amended. For a table built by installing the names of a list in turn, the
  entries file has one line for every symbol with the entry flag, and the symbols
  are listed by ascending hash value of their names (chain 0 to chain 57 of the
  table); the symbols of one chain are listed in the reverse of the order of their
  installation. The file is not in the order of the declarations in the source.
\<close>

theorem entries_file_order:
  assumes "built_by names table"
  shows "form_ent_file table
           = (if ent_symbols table = [] then None
              else Some (join_lines (map ent_line (ent_symbols table))))
     \<and> map name (ent_symbols table)
           = concat (map (\<lambda>i. rev (filter (\<lambda>n. symb_hash n = i \<and> entry_marked table n) names))
                      [0..<SYMBT_HSIZE])"
proof -
  from built_by_chains [OF assms] have dist: "distinct names"
    and ch: "\<And>i. map name (table i) = rev (filter (\<lambda>n. symb_hash n = i) names)"
    by auto
  have "map name (filter is_entry (table i))
      = rev (filter (\<lambda>n. symb_hash n = i \<and> entry_marked table n) names)" for i
  proof -
    have d: "distinct (map name (table i))"
      using dist by (simp add: ch)
    have "map name (filter is_entry (table i))
        = filter (\<lambda>n. case find (\<lambda>symb. n = name symb) (table i) of None \<Rightarrow> False | Some symb \<Rightarrow> is_entry symb)
            (map name (table i))"
      by (rule names_of_entries [OF d])
    also have "\<dots> = filter (\<lambda>n. entry_marked table n) (map name (table i))"
      by (intro filter_cong) (auto simp add: entry_marked_def symb_lookup_def ch)
    also have "\<dots> = rev (filter (\<lambda>n. symb_hash n = i \<and> entry_marked table n) names)"
      by (simp add: ch rev_filter [symmetric] conj_commute)
    finally show ?thesis .
  qed
  then have "map name (ent_symbols table)
      = concat (map (\<lambda>i. rev (filter (\<lambda>n. symb_hash n = i \<and> entry_marked table n) names))
                      [0..<SYMBT_HSIZE])"
    by (simp add: ent_symbols_def map_concat comp_def)
  then show ?thesis
    by (simp add: form_ent_file_def pnt_ent_symbols_lines)
qed

theorem entries_file_order_witness:
  "map name (ent_symbols two_entries_table) = [''A'', ''B'']
   \<and> form_ent_file two_entries_table = Some (''A 0000101'' @ CHR 0x0A # ''B 0000100'')"
proof -
  have e: "map name (ent_symbols two_entries_table)
      = concat (map (\<lambda>i. rev (filter (\<lambda>n. symb_hash n = i \<and> entry_marked two_entries_table n)
                                 [''B'', ''A'']))
                  [0..<SYMBT_HSIZE])"
    and f: "form_ent_file two_entries_table
      = (if ent_symbols two_entries_table = [] then None
         else Some (join_lines (map ent_line (ent_symbols two_entries_table))))"
    using entries_file_order [OF built_two_entries_table] by simp_all
  have hb: "symb_hash ''B'' = 8" and ha: "symb_hash ''A'' = 7"
    by (simp_all add: symb_hash_def char_to_unsigned_def SYMBT_HSIZE_def)
  have m: "entry_marked two_entries_table ''A''" "entry_marked two_entries_table ''B''"
    by (simp_all add: entry_marked_def symb_lookup_def two_entries_table_def ha hb A_symb_def B_symb_def)
  have n: "map name (ent_symbols two_entries_table) = [''A'', ''B'']"
    unfolding e by (simp add: ha hb m SYMBT_HSIZE_def upt_rec)
  have s: "ent_symbols two_entries_table = [A_symb, B_symb]"
    by (simp add: ent_symbols_def two_entries_table_def ha hb A_symb_def B_symb_def intlz_symbt_def
        SYMBT_HSIZE_def upt_rec)
  show ?thesis
    using n by (simp add: f s ent_line_def A_symb_def B_symb_def fmt_defs)
qed

text \<open>
  The table at the end of both scans of a source that was assembled without an error
  is such a table.
\<close>

lemma installs_built:
  assumes "built_by names t" and "installs t ds t'"
  shows "\<exists>names'. built_by names' t'"
proof -
  from assms(2) consider "t' = t"
    | nm a e d where "symb_lookup t nm = None"
        "t' = t(symb_hash nm := \<lparr>name = nm, rep_word = symb_rep_word a e, is_extern = e,
                                     is_entry = False, is_data = d\<rparr> # t (symb_hash nm))"
    unfolding installs_def by blast
  then show ?thesis
  proof cases
    case 1
    with assms(1) show ?thesis by blast
  next
    case 2
    then have "symb_inst True t nm (symb_rep_word a e) e False d = (ALL_GOOD, t')"
      by (simp add: symb_inst_def Let_def)
    from built_inst [OF assms(1) this] show ?thesis by blast
  qed
qed

lemma scan_lines_1_built:
  "scan_lines_1 src ALL_GOOD [] [] intlz_symbt = (ALL_GOOD, c, d, t) \<Longrightarrow> \<exists>names. built_by names t"
proof (induction src arbitrary: c d t rule: rev_induct)
  case Nil
  then show ?case using built_empty by auto
next
  case (snoc l ls)
  from scan_lines_1_prefix [OF snoc.prems] obtain c1 d1 t1
    where p: "scan_lines_1 ls ALL_GOOD [] [] intlz_symbt = (ALL_GOOD, c1, d1, t1)"
      and q: "scan_lines_1 [l] ALL_GOOD c1 d1 t1 = (ALL_GOOD, c, d, t)"
    by blast
  from snoc.IH [OF p] obtain names where "built_by names t1" by blast
  then show ?case using scan_lines_1_last [OF q] by (rule installs_built)
qed

lemma names_inc_data: "map name (inc_data t v i) = map name (t i)"
  by (simp add: inc_data_def inc_data_symb_def comp_def)

lemma assembled_table_built:
  assumes "scan_as_src_file src = (ALL_GOOD, code, data, elist, table)"
  shows "\<exists>names. built_by names table"
proof -
  obtain s1 c1 d1 t1 where r: "scan_lines_1 src ALL_GOOD [] [] intlz_symbt = (s1, c1, d1, t1)"
    by (cases "scan_lines_1 src ALL_GOOD [] [] intlz_symbt") auto
  let ?t = "inc_data t1 (wl_size c1 + INITIAL_LOAD_ADSS)"
  from assms r have fin: "fst (run_2nd_scan src c1 ?t s1 []) = ALL_GOOD"
    and tab: "table = symb_tab (snd (run_2nd_scan src c1 ?t s1 []))"
    by (simp_all add: scan_as_src_file_def run_1st_scan_def split_beta)
  from fin have "s1 = ALL_GOOD"
    unfolding run_2nd_scan_def
    using scan_lines_2_status
      [of src s1 "\<lparr>code_img = c1, curr_word = 0, IC = INITIAL_LOAD_ADSS, ext_list = [],
                    symb_tab = ?t\<rparr>"]
    by auto
  with r scan_lines_1_built obtain names where b: "built_by names t1" by blast
  have "\<forall>i. map name (table i) = map name (t1 i)"
    unfolding tab run_2nd_scan_def by (simp add: scan_lines_2_names names_inc_data)
  with b have "built_by names table" by (rule built_update)
  then show ?thesis ..
qed

text \<open>
  The symbols \<^verbatim>\<open>B\<close> and \<^verbatim>\<open>A\<close> are declared in this order, by \<^verbatim>\<open>.entry\<close> and by
  label; the entries file lists \<^verbatim>\<open>A\<close> first.
\<close>

lemma scan_two_entries:
  "scan_as_src_file [''.entry B'', ''.entry A'', ''B: stop'', ''A: stop''] =
     (ALL_GOOD, [0x3c0004, 0x3c0004], [], [],
      intlz_symbt
        (symb_hash ''B'' := [\<lparr>name = ''B'', rep_word = 802, is_extern = False, is_entry = True, is_data = False\<rparr>],
         symb_hash ''A'' := [\<lparr>name = ''A'', rep_word = 810, is_extern = False, is_entry = True, is_data = False\<rparr>]))"
  by (simp add: eval_defs fun_eq_iff)

theorem entries_file_order_counterexample:
  "map_option ent_file (as_proc_file [''.entry B'', ''.entry A'', ''B: stop'', ''A: stop''])
     = Some (Some (''A 0000101'' @ CHR 0x0A # ''B 0000100''))"
  by (simp add: as_proc_file_def scan_two_entries)
     (simp add: form_ent_file_def ent_symbols_def ent_line_def table_defs fmt_defs upt_rec)

section \<open>The lines of the object file\<close>

lemma pnt_word_list_lines: "pnt_word_list ws a = join_lines (word_lines ws a)"
proof (induction ws arbitrary: a)
  case Nil
  then show ?case by simp
next
  case (Cons w ws)
  note IH = Cons.IH
  show ?case
  proof (cases ws)
    case Nil
    then show ?thesis by (simp add: word_line_def)
  next
    case (Cons v vs)
    then have "pnt_word_list (w # ws) a = word_line a w @ CHR 0x0A # pnt_word_list ws (a + 1)"
      by (simp add: word_line_def)
    also have "\<dots> = word_line a w @ CHR 0x0A # join_lines (word_lines ws (a + 1))"
      by (simp only: IH)
    also have "\<dots> = join_lines (word_lines (w # ws) a)"
      by (simp add: Cons)
    finally show ?thesis .
  qed
qed

lemma join_lines_append:
  "xs \<noteq> [] \<Longrightarrow> ys \<noteq> [] \<Longrightarrow> join_lines (xs @ ys) = join_lines xs @ CHR 0x0A # join_lines ys"
  by (cases xs; cases ys) (simp_all add: join_lines_Cons)

lemma word_lines_Nil_iff: "word_lines ws a = [] \<longleftrightarrow> ws = []"
  by (cases ws) simp_all

text \<open>
  C7, as amended. In the object file of a source that was assembled without an error
  and has at least one code word and one data word, the lines are the header line,
  the lines of the code image and the lines of the data image, whose addresses go on
  after those of the code image: the first line of the data image follows the last
  line of the code image directly, the two being separated by one newline and by no
  blank line.
\<close>

theorem ob_file_lines:
  assumes "as_proc_file src = Some out"
    and "scan_as_src_file src = (st, code, data, elist, table)"
    and "code \<noteq> []" and "data \<noteq> []"
  shows "ob_file out
           = join_lines (ob_header code data
                         # word_lines code INITIAL_LOAD_ADSS
                         @ word_lines data (INITIAL_LOAD_ADSS + wl_size code))"
proof -
  from assms(1,2) have ob: "ob_file out = create_ob_file code data"
    by (auto simp add: as_proc_file_def split: if_splits)
  let ?c = "word_lines code INITIAL_LOAD_ADSS"
  let ?d = "word_lines data (INITIAL_LOAD_ADSS + wl_size code)"
  from assms(3,4) have ne: "?c \<noteq> []" "?d \<noteq> []"
    by (simp_all add: word_lines_Nil_iff)
  then have "join_lines (ob_header code data # ?c @ ?d)
      = ob_header code data @ CHR 0x0A # join_lines ?c @ CHR 0x0A # join_lines ?d"
    using join_lines_append [of "[ob_header code data]" "?c @ ?d"] join_lines_append [of ?c ?d]
    by simp
  then show ?thesis
    by (simp add: ob create_ob_file_def pnt_word_list_lines ob_header_def)
qed

lemma scan_entry_data_source:
  "scan_as_src_file entry_data_source =
     (ALL_GOOD, [0x3c0004], [5, - 1], [],
      intlz_symbt(symb_hash ''L'' := [L_symb\<lparr>is_entry := True\<rparr>]))"
  by (simp add: entry_data_source_def L_symb_def eval_defs fun_eq_iff)

lemma ob_file_entry_data_source:
  "as_proc_file entry_data_source
     = Some \<lparr>ob_file = create_ob_file [0x3c0004] [5, - 1],
             ext_file = form_ext_file [],
             ent_file = form_ent_file (intlz_symbt(symb_hash ''L'' := [L_symb\<lparr>is_entry := True\<rparr>]))\<rparr>"
  by (simp add: as_proc_file_def scan_entry_data_source)

theorem ob_file_lines_witness:
  "map_option ob_file (as_proc_file entry_data_source)
     = Some (join_lines [''1 2'', ''0000100 3c0004'', ''0000101 000005'', ''0000102 ffffff''])"
proof -
  have c: "[0x3c0004 :: Word] \<noteq> []" and d: "[5, - 1 :: Word] \<noteq> []" by simp_all
  from ob_file_lines [OF ob_file_entry_data_source scan_entry_data_source c d]
  have "create_ob_file [0x3c0004] [5, - 1]
      = join_lines (ob_header [0x3c0004] [5, - 1]
                    # word_lines [0x3c0004] INITIAL_LOAD_ADSS
                    @ word_lines [5, - 1] (INITIAL_LOAD_ADSS + wl_size [0x3c0004]))"
    by simp
  also have "ob_header [0x3c0004] [5, - 1] = ''1 2''"
    by (simp add: ob_header_def wl_size_def fmt_defs)
  also have "word_lines [0x3c0004] INITIAL_LOAD_ADSS = [''0000100 3c0004'']"
    by (simp add: word_line_def fmt_defs const_defs)
  also have "word_lines [5, - 1] (INITIAL_LOAD_ADSS + wl_size [0x3c0004])
      = [''0000101 000005'', ''0000102 ffffff'']"
    by (simp add: word_line_def fmt_defs const_defs wl_size_def)
  finally have "create_ob_file [0x3c0004] [5, - 1]
      = join_lines [''1 2'', ''0000100 3c0004'', ''0000101 000005'', ''0000102 ffffff'']"
    by simp
  then show ?thesis
    by (simp only: ob_file_entry_data_source option.map output_files.simps)
qed

text \<open>
  The object file of the source \<^verbatim>\<open>.entry L\<close>, \<^verbatim>\<open>L: .data 5, -1\<close>, \<^verbatim>\<open>stop\<close>, which has
  one code word and two data words, is not the file with a blank line between the
  code line and the first data line.
\<close>

theorem ob_file_separator_counterexample:
  "map_option ob_file (as_proc_file entry_data_source)
     \<noteq> Some (join_lines [''1 2'', ''0000100 3c0004'', [], ''0000101 000005'', ''0000102 ffffff''])"
  by (simp add: ob_file_entry_data_source)
     (simp add: create_ob_file_def wl_size_def fmt_defs const_defs)
section \<open>The code words of a line in the two scans\<close>

lemma get_token_shorter:
  assumes "get_token s = (tok, rest)" and "tok \<noteq> []"
  shows "length rest < length s"
proof (cases "dropWhile isspace s")
  case Nil
  with assms show ?thesis unfolding get_token_def by simp
next
  case (Cons c cs)
  have le: "length (c # cs) \<le> length s"
    using length_dropWhile_le [of isspace s] by (simp only: Cons)
  have ns: "\<not> isspace c"
    using dropWhile_eq_Cons_conv [of isspace s c cs] Cons by simp
  show ?thesis
  proof (cases "c = CHR '',''")
    case True
    with le assms show ?thesis unfolding get_token_def Cons by auto
  next
    case False
    with le ns assms show ?thesis
      unfolding get_token_def Cons by (auto simp add: Let_def MAX_LINE_LEN_def)
  qed
qed

lemma operands_end: "get_token s = ([], r) \<Longrightarrow> operands s = []"
  by (simp add: operands_def tokens.simps [of s])

lemma operands_comma: "get_token s = ('','', r) \<Longrightarrow> operands s = operands r"
  by (simp add: operands_def tokens.simps [of s])

lemma operands_opnd:
  "get_token s = (tok, r) \<Longrightarrow> tok \<noteq> [] \<Longrightarrow> tok \<noteq> '','' \<Longrightarrow> operands s = tok # operands r"
  by (simp add: operands_def tokens.simps [of s])

lemma str_to_long_error: "str_to_long s = Inl e \<Longrightarrow> e = STR_EMPTY \<or> e = INT_EXP"
  by (auto simp add: str_to_long_def split: list.splits if_splits option.splits)

lemma reg_check_first: "reg_check tok \<noteq> None \<Longrightarrow> hd tok = CHR ''r''"
  by (auto simp add: reg_check_def split: list.splits if_splits)

lemma get_opnd_1_good:
  assumes "get_opnd_1 line uninit_opnd = (ALL_GOOD, opnd, rest)"
  shows "\<exists>tok. get_token line = (tok, rest) \<and> tok \<noteq> [] \<and> tok \<noteq> '',''
           \<and> (adss_method opnd = direct_reg_a \<longleftrightarrow> reg_check tok \<noteq> None)"
proof -
  obtain tok r where t: "get_token line = (tok, r)" by (cases "get_token line") auto
  from assms t have ne: "tok \<noteq> []" "tok \<noteq> '',''" and r: "r = rest"
    by (auto simp add: get_opnd_1_def split: if_splits prod.splits option.splits)
  have "adss_method opnd = direct_reg_a \<longleftrightarrow> reg_check tok \<noteq> None"
  proof (cases "hd tok = CHR ''#''")
    case True
    have nr: "reg_check tok = None"
    proof (rule ccontr)
      assume "reg_check tok \<noteq> None"
      from reg_check_first [OF this] True show False by simp
    qed
    from assms t ne True have "get_imed_opnd (tl tok) uninit_opnd = (ALL_GOOD, opnd)"
      by (auto simp add: get_opnd_1_def split: prod.splits)
    then have "adss_method opnd = imediate_a"
      by (auto simp add: get_imed_opnd_def uninit_opnd_def split: sum.splits if_splits
          dest: str_to_long_error)
    with nr show ?thesis by simp
  next
    case False
    with assms t ne show ?thesis
      by (auto simp add: get_opnd_1_def uninit_opnd_def split: option.splits if_splits)
  qed
  with t ne r show ?thesis by simp
qed

lemma opnd_word_add_1_length:
  "\<exists>c'. opnd_word_add_1 opnd (Some c) = Some c'
        \<and> length c' = length c + (if adss_method opnd = direct_reg_a then 0 else 1)"
  by (cases "adss_method opnd") (simp_all add: opnd_word_add_1_def word_list_add_def)

lemma get_dest_opnd_1_good:
  assumes "get_dest_opnd_1 line inst uninit_opnd = (st, des)" and "st \<noteq> INP_ERROR"
  shows "\<exists>tok. operands line = [tok]
           \<and> (adss_method des = direct_reg_a \<longleftrightarrow> reg_check tok \<noteq> None)"
proof -
  obtain s1 d r where g: "get_opnd_1 line uninit_opnd = (s1, d, r)"
    by (cases "get_opnd_1 line uninit_opnd") auto
  with assms have s1: "s1 = ALL_GOOD" and d: "d = des" and e: "line_end_check r = ALL_GOOD"
    by (auto simp add: get_dest_opnd_1_def split: if_splits)
  from get_opnd_1_good [OF g [unfolded s1]] obtain tok
    where t: "get_token line = (tok, r)" "tok \<noteq> []" "tok \<noteq> '',''"
      and m: "adss_method d = direct_reg_a \<longleftrightarrow> reg_check tok \<noteq> None"
    by blast
  from e have "fst (get_token r) = []"
    by (simp add: line_end_check_def split: if_splits)
  then have "operands r = []"
    using operands_end [of r "snd (get_token r)"] by (simp add: prod_eq_iff)
  with t have "operands line = [tok]"
    by (simp add: operands_opnd)
  with m d show ?thesis by simp
qed

lemma update_code_img_1_size:
  assumes "update_code_img_1 line inst (Some c) = (st, code')" and "st \<noteq> INP_ERROR"
  shows "\<exists>c'. code' = Some c'
           \<and> length c' = length c + 1 + sum_list (map opnd_size (operands line))"
proof -
  obtain s src des where g: "get_inst_opnds_1 line inst uninit_opnd uninit_opnd = (s, src, des)"
    by (cases "get_inst_opnds_1 line inst uninit_opnd uninit_opnd") auto
  with assms have s: "s \<noteq> INP_ERROR"
    by (auto simp add: update_code_img_1_def split: if_splits)
  let ?c1 = "c @ [creat_inst_word inst src des]"
  have c1: "snd (word_list_add True (creat_inst_word inst src des) (Some c)) = Some ?c1"
    by (simp add: word_list_add_def)
  consider (zero) "opnd_num inst = 0" | (one) "opnd_num inst = 1" | (two) "opnd_num inst = 2"
    using g s by (auto simp add: get_inst_opnds_1_def split: if_splits)
  then show ?thesis
  proof cases
    case zero
    with g s have "line_end_check line = ALL_GOOD"
      by (auto simp add: get_inst_opnds_1_def line_end_check_def split: if_splits)
    then have "fst (get_token line) = []"
      by (simp add: line_end_check_def split: if_splits)
    then have "operands line = []"
      using operands_end [of line "snd (get_token line)"] by (simp add: prod_eq_iff)
    with assms g s zero show ?thesis
      by (auto simp add: update_code_img_1_def c1 split: if_splits)
  next
    case one
    with g have d: "get_dest_opnd_1 line inst uninit_opnd = (s, des)"
      by (auto simp add: get_inst_opnds_1_def split: prod.splits)
    from get_dest_opnd_1_good [OF d s] obtain tok where o: "operands line = [tok]"
      and m: "adss_method des = direct_reg_a \<longleftrightarrow> reg_check tok \<noteq> None" by blast
    obtain ca where ca: "opnd_word_add_1 des (Some ?c1) = Some ca"
      and la: "length ca = length ?c1 + (if adss_method des = direct_reg_a then 0 else 1)"
      using opnd_word_add_1_length by blast
    from assms g s one have "code' = opnd_word_add_1 des (Some ?c1)"
      by (auto simp add: update_code_img_1_def c1 split: if_splits)
    with ca la o m show ?thesis
      by (auto simp add: opnd_size_def)
  next
    case two
    obtain s1 src1 r1 where g1: "get_opnd_1 line uninit_opnd = (s1, src1, r1)"
      by (cases "get_opnd_1 line uninit_opnd") auto
    obtain s2 r2 where g2: "comma_check r1 = (s2, r2)" by (cases "comma_check r1") auto
    from g s two g1 g2 have s1: "s1 = ALL_GOOD" and s2: "s2 = ALL_GOOD" and src: "src1 = src"
      and d: "get_dest_opnd_1 r2 inst uninit_opnd = (s, des)"
      by (auto simp add: get_inst_opnds_1_def split: if_splits prod.splits)
    from get_opnd_1_good [OF g1 [unfolded s1]] obtain tok1
      where t1: "get_token line = (tok1, r1)" "tok1 \<noteq> []" "tok1 \<noteq> '',''"
        and m1: "adss_method src = direct_reg_a \<longleftrightarrow> reg_check tok1 \<noteq> None"
      using src by blast
    from g2 s2 have tc: "get_token r1 = ('','', r2)"
      by (auto simp add: comma_check_def split: prod.splits if_splits)
    from get_dest_opnd_1_good [OF d s] obtain tok2 where o2: "operands r2 = [tok2]"
      and m2: "adss_method des = direct_reg_a \<longleftrightarrow> reg_check tok2 \<noteq> None" by blast
    have o: "operands line = [tok1, tok2]"
      using t1 tc o2 by (simp add: operands_opnd operands_comma)
    obtain ca where ca: "opnd_word_add_1 src (Some ?c1) = Some ca"
      and la: "length ca = length ?c1 + (if adss_method src = direct_reg_a then 0 else 1)"
      using opnd_word_add_1_length by blast
    obtain cb where cb: "opnd_word_add_1 des (Some ca) = Some cb"
      and lb: "length cb = length ca + (if adss_method des = direct_reg_a then 0 else 1)"
      using opnd_word_add_1_length by blast
    from assms g s two have "code' = opnd_word_add_1 des (opnd_word_add_1 src (Some ?c1))"
      by (auto simp add: update_code_img_1_def c1 split: if_splits)
    with ca cb la lb o m1 m2 show ?thesis
      by (auto simp add: opnd_size_def)
  qed
qed

lemma find_ass_inst_name:
  "find_ass_inst kw = Some inst \<Longrightarrow> kw \<noteq> [] \<and> hd kw \<noteq> CHR ''.'' \<and> kw \<noteq> '',''"
  by (auto simp add: find_ass_inst_def inst_table_def mk_inst_def split: if_splits)

lemma proc_statement_1_size:
  assumes "proc_statement_1 args kw sn dec (Some c) (Some d) t = (st, code', data', t')"
    and "st \<noteq> INP_ERROR"
  shows "\<exists>c'. code' = Some c'
           \<and> length c' = length c
                + (if find_ass_inst kw \<noteq> None then 1 + sum_list (map opnd_size (operands args)) else 0)"
proof (cases "find_ass_inst kw")
  case None
  with assms show ?thesis
    by (auto simp add: proc_statement_1_def proc_inst_1_def split: if_splits prod.splits)
next
  case (Some inst)
  from find_ass_inst_name [OF Some] have k: "kw \<noteq> '',''" "hd kw \<noteq> CHR ''.''" by simp_all
  obtain s1 c1 where u: "update_code_img_1 args inst (Some c) = (s1, c1)"
    by (cases "update_code_img_1 args inst (Some c)") auto
  from assms k Some u have "s1 = st" and "c1 = code'"
    by (auto simp add: proc_statement_1_def proc_inst_1_def split: if_splits prod.splits)
  with update_code_img_1_size [OF u] assms(2) Some show ?thesis by simp
qed

lemma proc_line_1_size:
  assumes "proc_line_1 line (Some c) (Some d) t = (st, code', data', t')"
    and "st \<noteq> INP_ERROR"
  shows "\<exists>c'. code' = Some c' \<and> length c' = length c + inst_size line"
proof (cases "statement_of line")
  case None
  with assms show ?thesis
    by (auto simp add: proc_line_1_def statement_of_def inst_size_def
        split: if_splits prod.splits)
next
  case (Some p)
  obtain kw args where p: "p = (kw, args)" by (cases p) auto
  from Some p obtain sn dec where
    "proc_line_1 line (Some c) (Some d) t = proc_statement_1 args kw sn dec (Some c) (Some d) t"
    by (auto simp add: proc_line_1_def statement_of_def split: if_splits prod.splits)
  with assms proc_statement_1_size [of args kw sn dec c d t st code' data' t']
  show ?thesis
    by (simp add: inst_size_def Some p)
qed

lemma scan_lines_1_size:
  "scan_lines_1 ls ALL_GOOD c d t = (ALL_GOOD, c', d', t') \<Longrightarrow>
     length c' = length c + code_size ls \<and> (\<forall>l \<in> set ls. length l \<le> MAX_LINE_LEN)"
proof (induction ls arbitrary: c d t)
  case Nil
  then show ?case by (simp add: code_size_def)
next
  case (Cons l ls)
  show ?case
  proof (cases "length l > MAX_LINE_LEN")
    case True
    with Cons.prems have "scan_lines_1 ls INP_ERROR c d t = (ALL_GOOD, c', d', t')"
      by (simp add: get_line_def)
    from scan_lines_1_status [OF this] show ?thesis by simp
  next
    case False
    obtain st code1 data1 t1 where p: "proc_line_1 l (Some c) (Some d) t = (st, code1, data1, t1)"
      by (cases "proc_line_1 l (Some c) (Some d) t") auto
    let ?s = "if st = INP_ERROR then INP_ERROR else ALL_GOOD"
    let ?c = "case code1 of Some c \<Rightarrow> c | None \<Rightarrow> c"
    let ?d = "case data1 of Some d \<Rightarrow> d | None \<Rightarrow> d"
    from Cons.prems False p
    have r: "scan_lines_1 ls ?s ?c ?d t1 = (ALL_GOOD, c', d', t')"
      by (simp add: get_line_def)
    from scan_lines_1_status [OF r] have st: "st \<noteq> INP_ERROR" by (auto split: if_splits)
    from proc_line_1_size [OF p st] obtain c1 where c1: "code1 = Some c1"
      and l1: "length c1 = length c + inst_size l" by blast
    from r st c1 have "scan_lines_1 ls ALL_GOOD c1 ?d t1 = (ALL_GOOD, c', d', t')" by simp
    from Cons.IH [OF this] l1 False show ?thesis
      by (simp add: code_size_def)
  qed
qed

lemma symb_lookup_name: "symb_lookup t nm = Some symb \<Longrightarrow> name symb = nm"
  by (auto simp add: symb_lookup_def find_Some_iff)

lemma proc_opnd_2_good:
  assumes "proc_opnd_2 tok cw a el st = (res, st')" and "res \<noteq> INP_ERROR" and cw and el
    and "curr_word st + opnd_size tok \<le> length (code_img st)" and ne: "tok \<noteq> []"
  shows "ext_list st'
           = (if is_direct_opnd tok \<and> is_external (symb_tab st) tok then [(tok, IC st)] else [])
             @ ext_list st
     \<and> curr_word st' = curr_word st + opnd_size tok
     \<and> IC st' = IC st + of_nat (opnd_size tok)
     \<and> symb_tab st' = symb_tab st
     \<and> length (code_img st') = length (code_img st)"
proof -
  consider (imm) "tok \<noteq> []" "hd tok = CHR ''#''"
    | (reg) "\<not> (tok \<noteq> [] \<and> hd tok = CHR ''#'')" "reg_check tok \<noteq> None"
    | (rel) "reg_check tok = None" "tok \<noteq> []" "hd tok = CHR ''&''"
    | (dir) "\<not> (tok \<noteq> [] \<and> hd tok = CHR ''#'')" "reg_check tok = None"
            "\<not> (tok \<noteq> [] \<and> hd tok = CHR ''&'')"
    by blast
  then show ?thesis
  proof cases
    case imm
    then have nr: "reg_check tok = None"
      using reg_check_first [of tok] by (cases "reg_check tok") auto
    with imm assms show ?thesis
      by (auto simp add: proc_opnd_2_def str_to_opnd_2_def has_curr_word_def opnd_size_def
          is_direct_opnd_def uninit_opnd_def split: if_splits)
  next
    case reg
    with assms show ?thesis
      by (auto simp add: proc_opnd_2_def str_to_opnd_2_def has_curr_word_def opnd_size_def
          is_direct_opnd_def uninit_opnd_def split: if_splits)
  next
    case rel
    then have nh: "\<not> (tok \<noteq> [] \<and> hd tok = CHR ''#'')" by simp
    obtain s w where g: "get_rltv_opnd_word (tl tok) uninit_word (symb_tab st) a = (s, w)"
      by (cases "get_rltv_opnd_word (tl tok) uninit_word (symb_tab st) a") auto
    have "s = ALL_GOOD \<or> s = INP_ERROR"
      using g by (auto simp add: get_rltv_opnd_word_def Let_def split: option.splits if_splits)
    with rel nh g assms show ?thesis
      by (auto simp add: proc_opnd_2_def str_to_opnd_2_def has_curr_word_def opnd_size_def
          is_direct_opnd_def uninit_opnd_def split: if_splits)
  next
    case dir
    show ?thesis
    proof (cases "symb_lookup (symb_tab st) tok")
      case None
      with dir assms show ?thesis
        by (auto simp add: proc_opnd_2_def str_to_opnd_2_def)
    next
      case (Some symb)
      from symb_lookup_name [OF Some] have n: "name symb = tok" .
      have d: "is_direct_opnd tok"
        using dir ne by (auto simp add: is_direct_opnd_def)
      have e: "is_external (symb_tab st) tok = is_extern symb"
        by (simp add: is_external_def Some)
      from dir Some n d e assms show ?thesis
        by (auto simp add: proc_opnd_2_def str_to_opnd_2_def has_curr_word_def opnd_size_def
            is_direct_opnd_def uninit_opnd_def ext_list_add_def Let_def split: if_splits)
    qed
  qed
qed

lemma proc_inst_2_loop_good:
  assumes "proc_inst_2_loop args is1 cw a el st = (res, st')" and "res \<noteq> INP_ERROR"
    and cw and el
    and "curr_word st + sum_list (map opnd_size (operands args)) \<le> length (code_img st)"
    and "IC st = INITIAL_LOAD_ADSS + of_nat (curr_word st)"
  shows "ext_list st'
           = rev (opnds_ext_refs (is_external (symb_tab st)) (curr_word st) (operands args))
             @ ext_list st
     \<and> curr_word st' = curr_word st + sum_list (map opnd_size (operands args))
     \<and> IC st' = INITIAL_LOAD_ADSS + of_nat (curr_word st')
     \<and> symb_tab st' = symb_tab st
     \<and> length (code_img st') = length (code_img st)"
  using assms
proof (induction args is1 cw a el st arbitrary: res st' rule: proc_inst_2_loop.induct)
  case (1 arg_line is_1st_opnd cw_given curr_inst_adss el_given st)
  obtain token line1 where t: "get_token arg_line = (token, line1)"
    by (cases "get_token arg_line") auto
  obtain r s1 where p: "proc_opnd_2 token cw_given curr_inst_adss el_given st = (r, s1)"
    by (cases "proc_opnd_2 token cw_given curr_inst_adss el_given st") auto
  obtain token2 line2 where t2: "get_token line1 = (token2, line2)"
    by (cases "get_token line1") auto
  note unfold = proc_inst_2_loop.simps
      [of arg_line is_1st_opnd cw_given curr_inst_adss el_given st]
  show ?case
  proof (cases "token = []")
    case True
    with t have "operands arg_line = []" by (simp add: operands_end)
    with "1.prems"(1,6) True t show ?thesis
      by (auto simp add: unfold split: if_splits)
  next
    case False
    with "1.prems"(1,2) t have nc: "token \<noteq> '',''"
      by (auto simp add: unfold)
    with "1.prems"(1,2) t p False have r: "r \<noteq> INP_ERROR"
      by (auto simp add: unfold)
    from t False nc have o: "operands arg_line = token # operands line1"
      by (simp add: operands_opnd)
    from "1.prems"(5) o have sz: "curr_word st + opnd_size token \<le> length (code_img st)"
      by simp
    note g = proc_opnd_2_good [OF p r "1.prems"(3,4) sz False]
    show ?thesis
    proof (cases "token2 = []")
      case True
      with t2 have "operands line1 = []" by (simp add: operands_end)
      moreover from "1.prems"(1) t p t2 False nc r True have "st' = s1"
        by (simp add: unfold)
      ultimately show ?thesis
        using g o "1.prems"(6) by (simp add: add.assoc)
    next
      case ne2: False
      with "1.prems"(1,2) t p t2 False nc r have c2: "token2 = '',''"
        by (auto simp add: unfold split: if_splits)
      with t2 have o2: "operands line1 = operands line2" by (simp add: operands_comma)
      from "1.prems"(1) t p t2 False nc r ne2 c2
      have rec: "proc_inst_2_loop line2 False cw_given curr_inst_adss el_given s1 = (res, st')"
        by (simp add: unfold)
      have sz1: "curr_word s1 + sum_list (map opnd_size (operands line2)) \<le> length (code_img s1)"
        using g "1.prems"(5) o o2 by simp
      have ic1: "IC s1 = INITIAL_LOAD_ADSS + of_nat (curr_word s1)"
        using g "1.prems"(6) by (simp add: add.assoc)
      have ih: "ext_list st'
           = rev (opnds_ext_refs (is_external (symb_tab s1)) (curr_word s1) (operands line2))
             @ ext_list s1
         \<and> curr_word st' = curr_word s1 + sum_list (map opnd_size (operands line2))
         \<and> IC st' = INITIAL_LOAD_ADSS + of_nat (curr_word st')
         \<and> symb_tab st' = symb_tab s1
         \<and> length (code_img st') = length (code_img s1)"
        using False nc r ne2 c2 t p t2
        by (intro "1.IH" [of token line1 r s1 token2 line2 res st']
              rec "1.prems"(2,3,4) sz1 ic1) simp_all
      with g o o2 "1.prems"(6) show ?thesis
        by simp
    qed
  qed
qed

lemma proc_inst_2_good:
  assumes "proc_inst_2 args cw el st = (res, st')" and "res \<noteq> INP_ERROR" and cw and el
    and "curr_word st + 1 + sum_list (map opnd_size (operands args)) \<le> length (code_img st)"
    and "IC st = INITIAL_LOAD_ADSS + of_nat (curr_word st)"
  shows "ext_list st'
           = rev (opnds_ext_refs (is_external (symb_tab st)) (curr_word st + 1) (operands args))
             @ ext_list st
     \<and> curr_word st' = curr_word st + 1 + sum_list (map opnd_size (operands args))
     \<and> IC st' = INITIAL_LOAD_ADSS + of_nat (curr_word st')
     \<and> symb_tab st' = symb_tab st
     \<and> length (code_img st') = length (code_img st)"
proof -
  let ?s1 = "st\<lparr>curr_word := curr_word st + 1, IC := IC st + 1\<rparr>"
  from assms(3,5) have h: "has_curr_word cw st" by (simp add: has_curr_word_def)
  with assms(1) have l: "proc_inst_2_loop args True cw (IC st) el ?s1 = (res, st')"
    by (simp add: proc_inst_2_def Let_def)
  have sz: "curr_word ?s1 + sum_list (map opnd_size (operands args)) \<le> length (code_img ?s1)"
    using assms(5) by simp
  have ic: "IC ?s1 = INITIAL_LOAD_ADSS + of_nat (curr_word ?s1)"
    using assms(6) by (simp add: add.assoc)
  from proc_inst_2_loop_good [OF l assms(2,3,4) sz ic] show ?thesis
    by (simp add: add.assoc)
qed

lemma find_set_entry_chain_other:
  "map_option (\<lambda>symb. symb\<lparr>is_entry := True\<rparr>)
     (find (\<lambda>symb. nm = name symb) (set_entry_chain tk chain))
   = map_option (\<lambda>symb. symb\<lparr>is_entry := True\<rparr>) (find (\<lambda>symb. nm = name symb) chain)"
  by (induction chain) simp_all

lemma symb_lookup_entry_guide:
  "map_option (\<lambda>symb. symb\<lparr>is_entry := True\<rparr>) (symb_lookup (snd (proc_entry_guide line t)) nm)
   = map_option (\<lambda>symb. symb\<lparr>is_entry := True\<rparr>) (symb_lookup t nm)"
  by (simp add: proc_entry_guide_def symb_lookup_def find_set_entry_chain_other split_beta
      split: option.splits)

lemma is_external_same:
  assumes "\<And>nm. map_option (\<lambda>symb. symb\<lparr>is_entry := True\<rparr>) (symb_lookup t' nm)
               = map_option (\<lambda>symb. symb\<lparr>is_entry := True\<rparr>) (symb_lookup t nm)"
  shows "is_external t' = is_external t"
proof
  fix nm
  have "map_option is_extern (map_option (\<lambda>symb. symb\<lparr>is_entry := True\<rparr>) (symb_lookup t' nm))
      = map_option is_extern (map_option (\<lambda>symb. symb\<lparr>is_entry := True\<rparr>) (symb_lookup t nm))"
    by (simp only: assms)
  then have "map_option is_extern (symb_lookup t' nm) = map_option is_extern (symb_lookup t nm)"
    by (simp add: option.map_comp comp_def)
  then show "is_external t' nm = is_external t nm"
    by (cases "symb_lookup t' nm"; cases "symb_lookup t nm") (simp_all add: is_external_def)
qed

lemma proc_line_2_good:
  assumes "proc_line_2 line cw el st = (res, st')" and "res \<noteq> INP_ERROR" and cw and el
    and "curr_word st + inst_size line \<le> length (code_img st)"
    and "IC st = INITIAL_LOAD_ADSS + of_nat (curr_word st)"
  shows "ext_list st'
           = rev (line_ext_refs (is_external (symb_tab st)) (curr_word st) line) @ ext_list st
     \<and> curr_word st' = curr_word st + inst_size line
     \<and> IC st' = INITIAL_LOAD_ADSS + of_nat (curr_word st')
     \<and> is_external (symb_tab st') = is_external (symb_tab st)
     \<and> length (code_img st') = length (code_img st)"
proof (cases "statement_of line")
  case None
  with assms(1,6) show ?thesis
    by (auto simp add: proc_line_2_def statement_of_def inst_size_def line_ext_refs_def
        split: if_splits prod.splits)
next
  case (Some p)
  obtain kw args where p: "p = (kw, args)" by (cases p) auto
  from Some p have k: "proc_line_2 line cw el st = proc_key_word_2 kw args cw el st"
    and kne: "kw \<noteq> []"
    by (auto simp add: proc_line_2_def statement_of_def split: if_splits prod.splits)
  show ?thesis
  proof (cases "find_ass_inst kw")
    case None
    with assms(1,2) k kne have dot: "hd kw = CHR ''.''"
      by (auto simp add: proc_key_word_2_def split: if_splits)
    have "ext_list st' = ext_list st \<and> curr_word st' = curr_word st \<and> IC st' = IC st
        \<and> length (code_img st') = length (code_img st)
        \<and> (symb_tab st' = symb_tab st
            \<or> symb_tab st' = snd (proc_entry_guide args (symb_tab st)))"
      using assms(1) k kne dot
      by (auto simp add: proc_key_word_2_def split_beta split: if_splits)
    moreover have "is_external (snd (proc_entry_guide args (symb_tab st))) = is_external (symb_tab st)"
      by (rule is_external_same) (rule symb_lookup_entry_guide)
    ultimately show ?thesis
      using assms(6) None by (auto simp add: inst_size_def line_ext_refs_def Some p)
  next
    case (Some inst)
    from find_ass_inst_name [OF Some] have "hd kw \<noteq> CHR ''.''" by simp
    with assms(1) k Some have i: "proc_inst_2 args cw el st = (res, st')"
      by (simp add: proc_key_word_2_def)
    have sz: "curr_word st + 1 + sum_list (map opnd_size (operands args)) \<le> length (code_img st)"
      using assms(5) Some \<open>statement_of line = Some p\<close> p by (simp add: inst_size_def)
    from proc_inst_2_good [OF i assms(2,3,4) sz assms(6)] show ?thesis
      using Some \<open>statement_of line = Some p\<close> p
      by (simp add: inst_size_def line_ext_refs_def)
  qed
qed

lemma scan_lines_2_good:
  assumes "scan_lines_2 ls ALL_GOOD st = (ALL_GOOD, st')"
    and "\<forall>l \<in> set ls. length l \<le> MAX_LINE_LEN"
    and "curr_word st + code_size ls \<le> length (code_img st)"
    and "IC st = INITIAL_LOAD_ADSS + of_nat (curr_word st)"
  shows "ext_list st'
           = rev (src_ext_refs (is_external (symb_tab st)) (curr_word st) ls) @ ext_list st
     \<and> curr_word st' = curr_word st + code_size ls
     \<and> IC st' = INITIAL_LOAD_ADSS + of_nat (curr_word st')
     \<and> is_external (symb_tab st') = is_external (symb_tab st)
     \<and> length (code_img st') = length (code_img st)"
  using assms
proof (induction ls arbitrary: st)
  case Nil
  then show ?case by (simp add: code_size_def)
next
  case (Cons l ls)
  obtain res s1 where p: "proc_line_2 l True True st = (res, s1)"
    by (cases "proc_line_2 l True True st") auto
  from Cons.prems(1,2) p
  have r: "scan_lines_2 ls (if res = INP_ERROR then INP_ERROR else ALL_GOOD) s1 = (ALL_GOOD, st')"
    by (simp add: get_line_def)
  have res: "res \<noteq> INP_ERROR"
  proof
    assume "res = INP_ERROR"
    with r scan_lines_2_error [of ls s1] show False by simp
  qed
  with r have r': "scan_lines_2 ls ALL_GOOD s1 = (ALL_GOOD, st')" by simp
  have sz: "curr_word st + inst_size l \<le> length (code_img st)"
    using Cons.prems(3) by (simp add: code_size_def)
  note g = proc_line_2_good [OF p res TrueI TrueI sz Cons.prems(4)]
  have sz1: "curr_word s1 + code_size ls \<le> length (code_img s1)"
    using g Cons.prems(3) by (simp add: code_size_def)
  from g have ic1: "IC s1 = INITIAL_LOAD_ADSS + of_nat (curr_word s1)" by simp
  from Cons.prems(2) have short: "\<forall>l \<in> set ls. length l \<le> MAX_LINE_LEN" by simp
  from Cons.IH [OF r' short sz1 ic1] g show ?case
    by (simp add: code_size_def add.assoc)
qed

section \<open>The order of the external references\<close>

lemma pnt_ext_list_lines: "pnt_ext_list el = join_lines (map ext_ref_line el)"
proof (induction el)
  case Nil
  then show ?case by simp
next
  case (Cons e es)
  then show ?case
    by (cases e; cases es) (simp_all add: ext_ref_line_def)
qed

lemma second_scan_of_source:
  assumes "scan_as_src_file src = (ALL_GOOD, code, data, elist, table)"
  shows "\<exists>code1 table1 st.
           run_1st_scan src [] [] intlz_symbt = (ALL_GOOD, code1, data, table1)
         \<and> run_2nd_scan src code1 table1 ALL_GOOD [] = (ALL_GOOD, st)
         \<and> code = code_img st \<and> elist = ext_list st \<and> table = symb_tab st
         \<and> length code1 = code_size src \<and> (\<forall>l \<in> set src. length l \<le> MAX_LINE_LEN)"
proof -
  obtain s1 c1 d1 t1 where r: "scan_lines_1 src ALL_GOOD [] [] intlz_symbt = (s1, c1, d1, t1)"
    by (cases "scan_lines_1 src ALL_GOOD [] [] intlz_symbt") auto
  let ?t = "inc_data t1 (wl_size c1 + INITIAL_LOAD_ADSS)"
  obtain s2 st where r2: "run_2nd_scan src c1 ?t s1 [] = (s2, st)"
    by (cases "run_2nd_scan src c1 ?t s1 []") auto
  from assms r r2 have fin: "s2 = ALL_GOOD" and eq: "code = code_img st" "elist = ext_list st"
      "table = symb_tab st" "data = d1"
    by (simp_all add: scan_as_src_file_def run_1st_scan_def)
  have "s1 = ALL_GOOD"
    using r2 fin
      scan_lines_2_status
        [of src s1 "\<lparr>code_img = c1, curr_word = 0, IC = INITIAL_LOAD_ADSS, ext_list = [],
                      symb_tab = ?t\<rparr>"]
    unfolding run_2nd_scan_def by auto
  with r r2 fin eq scan_lines_1_size [of src "[]" "[]" intlz_symbt c1 d1 t1]
  show ?thesis
    by (simp add: run_1st_scan_def)
qed

text \<open>
  C3, as amended. For every source that is assembled without an error, the list of
  external references holds one pair for every direct operand that names an external
  symbol, with the address of the operand's word, in the reverse of the order in
  which the references appear in the source text (line by line, and in a line from
  left to right): the reference that appears last comes first. The lines of the
  externals file are in the same reversed order, and no file is created when there
  is no reference.
\<close>

theorem ext_file_reverse_order:
  assumes "scan_as_src_file src = (ALL_GOOD, code, data, elist, table)"
  shows "elist = rev (src_ext_refs (is_external table) 0 src)
     \<and> form_ext_file elist
         = (if src_ext_refs (is_external table) 0 src = [] then None
            else Some (join_lines (rev (map ext_ref_line (src_ext_refs (is_external table) 0 src)))))"
proof -
  from second_scan_of_source [OF assms] obtain code1 table1 st
    where r2: "run_2nd_scan src code1 table1 ALL_GOOD [] = (ALL_GOOD, st)"
      and eq: "elist = ext_list st" "table = symb_tab st"
      and len: "length code1 = code_size src"
      and short: "\<forall>l \<in> set src. length l \<le> MAX_LINE_LEN"
    by blast
  let ?st0 = "\<lparr>code_img = code1, curr_word = 0, IC = INITIAL_LOAD_ADSS, ext_list = [],
               symb_tab = table1\<rparr>"
  from r2 have s: "scan_lines_2 src ALL_GOOD ?st0 = (ALL_GOOD, st)"
    by (simp add: run_2nd_scan_def)
  have sz: "curr_word ?st0 + code_size src \<le> length (code_img ?st0)"
    using len by simp
  have ic: "IC ?st0 = INITIAL_LOAD_ADSS + of_nat (curr_word ?st0)" by simp
  from scan_lines_2_good [OF s short sz ic]
  have "ext_list st = rev (src_ext_refs (is_external table1) 0 src)"
    and "is_external (symb_tab st) = is_external table1"
    by simp_all
  with eq have l: "elist = rev (src_ext_refs (is_external table) 0 src)" by simp
  then show ?thesis
    by (simp add: form_ext_file_def pnt_ext_list_lines rev_map)
qed

text \<open>
  The source \<^verbatim>\<open>.extern X\<close>, \<^verbatim>\<open>.extern Y\<close>, \<^verbatim>\<open>mov X, Y\<close>: the operand \<^verbatim>\<open>X\<close> at the
  address 101 appears before the operand \<^verbatim>\<open>Y\<close> at the address 102, and the list and
  the file have \<^verbatim>\<open>Y\<close> first.
\<close>

lemma scan_mov_source:
  "scan_as_src_file [''.extern X'', ''.extern Y'', ''mov X, Y''] =
     (ALL_GOOD, [67588, 1, 1], [], [(''Y'', 102), (''X'', 101)],
      intlz_symbt
        (symb_hash ''X'' := [\<lparr>name = ''X'', rep_word = 1, is_extern = True, is_entry = False, is_data = False\<rparr>],
         symb_hash ''Y'' := [\<lparr>name = ''Y'', rep_word = 1, is_extern = True, is_entry = False, is_data = False\<rparr>]))"
  by (simp add: eval_defs fun_eq_iff)

theorem ext_file_reverse_order_witness:
  "src_ext_refs
     (is_external (intlz_symbt
        (symb_hash ''X'' := [\<lparr>name = ''X'', rep_word = 1, is_extern = True, is_entry = False, is_data = False\<rparr>],
         symb_hash ''Y'' := [\<lparr>name = ''Y'', rep_word = 1, is_extern = True, is_entry = False, is_data = False\<rparr>])))
     0 [''.extern X'', ''.extern Y'', ''mov X, Y'']
     = [(''X'', 101), (''Y'', 102)]
   \<and> form_ext_file [(''Y'', 102), (''X'', 101)] = Some (''Y 0000102'' @ CHR 0x0A # ''X 0000101'')"
proof -
  let ?t = "intlz_symbt
        (symb_hash ''X'' := [\<lparr>name = ''X'', rep_word = 1, is_extern = True, is_entry = False, is_data = False\<rparr>],
         symb_hash ''Y'' := [\<lparr>name = ''Y'', rep_word = 1, is_extern = True, is_entry = False, is_data = False\<rparr>])"
  let ?src = "[''.extern X'', ''.extern Y'', ''mov X, Y'']"
  have n: "statement_of ''.extern X'' = Some (''.extern'', '' X'')"
      "statement_of ''.extern Y'' = Some (''.extern'', '' Y'')"
      "statement_of ''mov X, Y'' = Some (''mov'', '' X, Y'')"
    by (simp_all add: statement_of_def get_token_def char_defs const_defs)
  have g: "find_ass_inst ''.extern'' = None" "find_ass_inst ''mov'' \<noteq> None"
    by (simp_all add: find_ass_inst_def inst_table_def mk_inst_def)
  have o: "operands '' X, Y'' = [''X'', ''Y'']"
    by (simp add: operands_def tokens.simps get_token_def char_defs const_defs)
  have e: "is_external ?t ''X''" "is_external ?t ''Y''"
    by (simp_all add: is_external_def table_defs)
  have d: "is_direct_opnd ''X''" "is_direct_opnd ''Y''" "opnd_size ''X'' = 1"
    by (simp_all add: is_direct_opnd_def opnd_size_def reg_check_def)
  have r: "src_ext_refs (is_external ?t) 0 ?src = [(''X'', 101), (''Y'', 102)]"
    by (simp add: line_ext_refs_def inst_size_def n g o e d INITIAL_LOAD_ADSS_def)
  from ext_file_reverse_order [OF scan_mov_source, THEN conjunct2]
  have "form_ext_file [(''Y'', 102), (''X'', 101)]
      = Some (join_lines (rev (map ext_ref_line [(''X'', 101), (''Y'', 102)])))"
    unfolding r by simp
  then have "form_ext_file [(''Y'', 102), (''X'', 101)] = Some (''Y 0000102'' @ CHR 0x0A # ''X 0000101'')"
    by (simp add: ext_ref_line_def fmt_defs)
  with r show ?thesis by simp
qed

text \<open>
  The claim as it was stated fails for the source \<^verbatim>\<open>.extern X\<close>, \<^verbatim>\<open>.extern Y\<close>,
  \<^verbatim>\<open>jmp X\<close>, \<^verbatim>\<open>jmp Y\<close>: the reference to \<^verbatim>\<open>X\<close> at the address 101 appears first
  in the text, and the externals file has it last.
\<close>

theorem ext_file_order_counterexample:
  "map_option ext_file (as_proc_file [''.extern X'', ''.extern Y'', ''jmp X'', ''jmp Y''])
     = Some (Some (''Y 0000103'' @ CHR 0x0A # ''X 0000101''))"
  by (simp add: eval_defs)

section \<open>The word of a relative operand\<close>

lemma proc_opnd_2_below:
  assumes "k \<le> curr_word s"
  shows "k \<le> curr_word (snd (proc_opnd_2 tok cw a el s))
     \<and> take k (code_img (snd (proc_opnd_2 tok cw a el s))) = take k (code_img s)"
  using assms
  by (simp add: proc_opnd_2_def Let_def split: prod.splits adss_method.splits option.splits)

lemma proc_inst_2_loop_below:
  assumes "k \<le> curr_word s"
  shows "k \<le> curr_word (snd (proc_inst_2_loop line is1 cw a el s))
      \<and> take k (code_img (snd (proc_inst_2_loop line is1 cw a el s))) = take k (code_img s)"
  by (rule proc_inst_2_loop_inv
        [where P = "\<lambda>s'. k \<le> curr_word s' \<and> take k (code_img s') = take k (code_img s)"])
     (use assms proc_opnd_2_below in auto)

lemma proc_line_2_below:
  assumes "k \<le> curr_word s"
  shows "k \<le> curr_word (snd (proc_line_2 line cw el s))
      \<and> take k (code_img (snd (proc_line_2 line cw el s))) = take k (code_img s)"
proof -
  have i: "k \<le> curr_word (snd (proc_inst_2 args cw el s))
      \<and> take k (code_img (snd (proc_inst_2 args cw el s))) = take k (code_img s)" for args
    using assms proc_inst_2_loop_below [of k "s\<lparr>curr_word := curr_word s + 1, IC := IC s + 1\<rparr>"]
      proc_inst_2_loop_below [of k s]
    by (simp add: proc_inst_2_def Let_def)
  have "k \<le> curr_word (snd (proc_key_word_2 kw args cw el s))
      \<and> take k (code_img (snd (proc_key_word_2 kw args cw el s))) = take k (code_img s)" for kw args
    using assms i by (simp add: proc_key_word_2_def split_beta)
  with assms show ?thesis
    by (simp add: proc_line_2_def split_beta)
qed

lemma scan_lines_2_below:
  assumes "k \<le> curr_word s"
  shows "take k (code_img (snd (scan_lines_2 ls status s))) = take k (code_img s)"
  using assms
proof (induction ls arbitrary: status s)
  case Nil
  then show ?case by simp
next
  case (Cons l ls)
  have a: "take k (code_img (snd (scan_lines_2 ls status' (snd (proc_line_2 l cw el s)))))
      = take k (code_img s)" for status' cw el
    using Cons.IH [of "snd (proc_line_2 l cw el s)" status'] proc_line_2_below [OF Cons.prems]
    by simp
  show ?case
    using a Cons.IH [OF Cons.prems]
    by (simp add: get_line_def split_beta)
qed

lemma proc_inst_2_relative:
  assumes "get_token arg_line = (CHR ''&'' # S, rest)"
    and "symb_lookup (symb_tab st) S = Some symb" and "\<not> is_extern symb"
    and "curr_word st + 1 < length (code_img st)"
  shows "curr_word st + 2 \<le> curr_word (snd (proc_inst_2 arg_line True el st))
     \<and> take (curr_word st + 2) (code_img (snd (proc_inst_2 arg_line True el st)))
         = take (curr_word st + 2)
             ((code_img st)[curr_word st + 1 :=
                set_word_field ARE
                  (set_word_field NON_ARE uninit_word
                     (long_to_s21b (get_symb_adss symb - IC st)) 3)
                  ARE_A_set 0])"
proof -
  let ?w = "set_word_field ARE
      (set_word_field NON_ARE uninit_word (long_to_s21b (get_symb_adss symb - IC st)) 3)
      ARE_A_set 0"
  let ?st1 = "st\<lparr>curr_word := curr_word st + 1, IC := IC st + 1\<rparr>"
  let ?st2 = "?st1\<lparr>code_img := (code_img st)[curr_word st + 1 := ?w],
                    curr_word := curr_word st + 2, IC := IC st + 2\<rparr>"
  have rc: "reg_check (CHR ''&'' # S) = None"
    by (simp add: reg_check_def split: list.splits)
  have op: "proc_opnd_2 (CHR ''&'' # S) True (IC st) el ?st1 = (ALL_GOOD, ?st2)"
    using assms rc
    by (simp add: proc_opnd_2_def str_to_opnd_2_def get_rltv_opnd_word_def has_curr_word_def
        Let_def add.assoc)
  obtain token2 line2 where t2: "get_token rest = (token2, line2)"
    by (cases "get_token rest") auto
  have below: "curr_word st + 2 \<le> curr_word (snd (proc_inst_2_loop line2 False True (IC st) el ?st2))
      \<and> take (curr_word st + 2)
          (code_img (snd (proc_inst_2_loop line2 False True (IC st) el ?st2)))
        = take (curr_word st + 2) (code_img ?st2)"
    by (rule proc_inst_2_loop_below) simp
  show ?thesis
  proof (cases "token2 = [] \<or> token2 \<noteq> '',''")
    case True
    then have "snd (proc_inst_2 arg_line True el st) = ?st2"
      using assms(1,4) op t2
      by (simp add: proc_inst_2_def Let_def has_curr_word_def)
         (subst proc_inst_2_loop.simps, auto)
    then show ?thesis by simp
  next
    case False
    then have "snd (proc_inst_2 arg_line True el st)
        = snd (proc_inst_2_loop line2 False True (IC st) el ?st2)"
      using assms(1,4) op t2
      by (simp add: proc_inst_2_def Let_def has_curr_word_def)
         (subst proc_inst_2_loop.simps, auto)
    with below show ?thesis by simp
  qed
qed

lemma proc_line_2_lookup:
  "map_option (\<lambda>symb. symb\<lparr>is_entry := True\<rparr>)
     (symb_lookup (symb_tab (snd (proc_line_2 line cw el st))) nm)
   = map_option (\<lambda>symb. symb\<lparr>is_entry := True\<rparr>) (symb_lookup (symb_tab st) nm)"
proof -
  have "map_option (\<lambda>symb. symb\<lparr>is_entry := True\<rparr>)
      (symb_lookup (symb_tab (snd (proc_key_word_2 kw args cw el st))) nm)
    = map_option (\<lambda>symb. symb\<lparr>is_entry := True\<rparr>) (symb_lookup (symb_tab st) nm)" for kw args
    by (simp add: proc_key_word_2_def split_beta proc_inst_2_table symb_lookup_entry_guide)
  then show ?thesis
    by (simp add: proc_line_2_def split_beta)
qed

lemma scan_lines_2_lookup:
  "map_option (\<lambda>symb. symb\<lparr>is_entry := True\<rparr>)
     (symb_lookup (symb_tab (snd (scan_lines_2 ls status st))) nm)
   = map_option (\<lambda>symb. symb\<lparr>is_entry := True\<rparr>) (symb_lookup (symb_tab st) nm)"
  by (induction ls arbitrary: status st) (simp_all add: get_line_def split_beta proc_line_2_lookup)

lemma code_size_append: "code_size (xs @ ys) = code_size xs + code_size ys"
  by (simp add: code_size_def)

lemma relative_only_single:
  "find_ass_inst kw = Some inst \<Longrightarrow> \<not> src_rltv inst \<and> (des_rltv inst \<longrightarrow> opnd_num inst = 1)"
  by (auto simp add: find_ass_inst_def inst_table_def mk_inst_def split: if_splits)

lemma get_opnd_1_relative:
  assumes "get_opnd_1 line uninit_opnd = (ALL_GOOD, opnd, rest)"
    and "get_token line = (CHR ''&'' # S, r)"
  shows "adss_method opnd = relative_a"
proof -
  have "reg_check (CHR ''&'' # S) = None"
    by (simp add: reg_check_def split: list.splits)
  with assms show ?thesis
    by (auto simp add: get_opnd_1_def split: if_splits)
qed

lemma get_dest_opnd_1_tokens:
  assumes "get_dest_opnd_1 line inst uninit_opnd = (st, des)" and "st \<noteq> INP_ERROR"
  shows "\<exists>tok r. get_token line = (tok, r) \<and> operands line = [tok]
           \<and> (tok = CHR ''&'' # S \<longrightarrow> des_rltv inst)"
proof -
  obtain s1 d r where g: "get_opnd_1 line uninit_opnd = (s1, d, r)"
    by (cases "get_opnd_1 line uninit_opnd") auto
  with assms have s1: "s1 = ALL_GOOD" and d: "d = des" and e: "line_end_check r = ALL_GOOD"
    and m: "inst_opnd_match inst d False = ALL_GOOD"
    by (auto simp add: get_dest_opnd_1_def split: if_splits)
  from get_opnd_1_good [OF g [unfolded s1]] obtain tok
    where t: "get_token line = (tok, r)" "tok \<noteq> []" "tok \<noteq> '',''"
    by blast
  from e have "fst (get_token r) = []"
    by (simp add: line_end_check_def split: if_splits)
  then have "operands r = []"
    using operands_end [of r "snd (get_token r)"] by (simp add: prod_eq_iff)
  with t have o: "operands line = [tok]"
    by (simp add: operands_opnd)
  have "des_rltv inst" if "tok = CHR ''&'' # S"
  proof -
    from get_opnd_1_relative [OF g [unfolded s1]] t that have "adss_method d = relative_a"
      by simp
    with m show ?thesis
      by (auto simp add: inst_opnd_match_def split: if_splits)
  qed
  with t o show ?thesis by blast
qed

lemma relative_operand_is_first:
  assumes "update_code_img_1 args inst (Some c) = (st, code')" and "st \<noteq> INP_ERROR"
    and "find_ass_inst kw = Some inst"
    and "CHR ''&'' # S \<in> set (operands args)"
  shows "\<exists>rest. get_token args = (CHR ''&'' # S, rest)"
proof -
  note tab = relative_only_single [OF assms(3)]
  obtain s src des where g: "get_inst_opnds_1 args inst uninit_opnd uninit_opnd = (s, src, des)"
    by (cases "get_inst_opnds_1 args inst uninit_opnd uninit_opnd") auto
  with assms(1,2) have s: "s \<noteq> INP_ERROR"
    by (auto simp add: update_code_img_1_def split: if_splits)
  consider (zero) "opnd_num inst = 0" | (one) "opnd_num inst = 1" | (two) "opnd_num inst = 2"
    using g s by (auto simp add: get_inst_opnds_1_def split: if_splits)
  then show ?thesis
  proof cases
    case zero
    with g s have "line_end_check args = ALL_GOOD"
      by (auto simp add: get_inst_opnds_1_def line_end_check_def split: if_splits)
    then have "fst (get_token args) = []"
      by (simp add: line_end_check_def split: if_splits)
    then have "operands args = []"
      using operands_end [of args "snd (get_token args)"] by (simp add: prod_eq_iff)
    with assms(4) show ?thesis by simp
  next
    case one
    with g have d: "get_dest_opnd_1 args inst uninit_opnd = (s, des)"
      by (auto simp add: get_inst_opnds_1_def split: prod.splits)
    from get_dest_opnd_1_tokens [OF d s] obtain tok r
      where "get_token args = (tok, r)" "operands args = [tok]" by blast
    with assms(4) show ?thesis by simp
  next
    case two
    obtain s1 src1 r1 where g1: "get_opnd_1 args uninit_opnd = (s1, src1, r1)"
      by (cases "get_opnd_1 args uninit_opnd") auto
    obtain s2 r2 where g2: "comma_check r1 = (s2, r2)" by (cases "comma_check r1") auto
    from g s two g1 g2 have s1: "s1 = ALL_GOOD" and s2: "s2 = ALL_GOOD"
      and m1: "inst_opnd_match inst src1 True = ALL_GOOD"
      and d: "get_dest_opnd_1 r2 inst uninit_opnd = (s, des)"
      by (auto simp add: get_inst_opnds_1_def split: if_splits prod.splits)
    from get_opnd_1_good [OF g1 [unfolded s1]] obtain tok1
      where t1: "get_token args = (tok1, r1)" "tok1 \<noteq> []" "tok1 \<noteq> '',''"
      by blast
    from g2 s2 have tc: "get_token r1 = ('','', r2)"
      by (auto simp add: comma_check_def split: prod.splits if_splits)
    from get_dest_opnd_1_tokens [OF d s, of S] obtain tok2 r
      where o2: "operands r2 = [tok2]" and rl: "tok2 = CHR ''&'' # S \<longrightarrow> des_rltv inst"
      by blast
    have o: "operands args = [tok1, tok2]"
      using t1 tc o2 by (simp add: operands_opnd operands_comma)
    have n1: "tok1 \<noteq> CHR ''&'' # S"
    proof
      assume "tok1 = CHR ''&'' # S"
      with get_opnd_1_relative [OF g1 [unfolded s1]] t1 have "adss_method src1 = relative_a"
        by simp
      with m1 tab show False
        by (auto simp add: inst_opnd_match_def split: if_splits)
    qed
    have n2: "tok2 \<noteq> CHR ''&'' # S"
      using rl tab two by auto
    from assms(4) o n1 n2 show ?thesis by simp
  qed
qed

lemma proc_line_1_relative_first:
  assumes "proc_line_1 line (Some c) (Some d) t = (st, code', data', t')"
    and "st \<noteq> INP_ERROR"
    and "statement_of line = Some (kw, args)" and "find_ass_inst kw \<noteq> None"
    and "CHR ''&'' # S \<in> set (operands args)"
  shows "\<exists>rest. get_token args = (CHR ''&'' # S, rest)"
proof -
  from assms(4) obtain inst where fi: "find_ass_inst kw = Some inst" by auto
  from find_ass_inst_name [OF fi] have k: "kw \<noteq> '',''" "hd kw \<noteq> CHR ''.''" by simp_all
  from assms(3) obtain sn dec where
    "proc_line_1 line (Some c) (Some d) t = proc_statement_1 args kw sn dec (Some c) (Some d) t"
    by (auto simp add: proc_line_1_def statement_of_def split: if_splits prod.splits)
  with assms(1) have ps: "proc_statement_1 args kw sn dec (Some c) (Some d) t = (st, code', data', t')"
    by simp
  obtain s1 c1 where u: "update_code_img_1 args inst (Some c) = (s1, c1)"
    by (cases "update_code_img_1 args inst (Some c)") auto
  from ps assms(2) k fi u have "s1 = st"
    by (auto simp add: proc_statement_1_def proc_inst_1_def split: if_splits prod.splits)
  with u assms(2) have "update_code_img_1 args inst (Some c) = (st, c1)" by simp
  from relative_operand_is_first [OF this assms(2) fi assms(5)] show ?thesis .
qed

lemma scan_lines_1_line:
  assumes "scan_lines_1 (pre @ line # post) ALL_GOOD c0 d0 t0 = (ALL_GOOD, c', d', t')"
  shows "\<exists>c d t st c1 d1 t1. proc_line_1 line (Some c) (Some d) t = (st, c1, d1, t1)
           \<and> st \<noteq> INP_ERROR"
proof -
  from scan_lines_1_prefix [OF assms] obtain c d t
    where q: "scan_lines_1 (line # post) ALL_GOOD c d t = (ALL_GOOD, c', d', t')"
    by blast
  obtain st c1 d1 t1 where p: "proc_line_1 line (Some c) (Some d) t = (st, c1, d1, t1)"
    by (cases "proc_line_1 line (Some c) (Some d) t") auto
  have "st \<noteq> INP_ERROR"
  proof
    assume e: "st = INP_ERROR"
    with q p have "\<exists>c2 d2 t2. scan_lines_1 post INP_ERROR c2 d2 t2 = (ALL_GOOD, c', d', t')"
      by (auto simp add: get_line_def split: if_splits)
    then show False
      using scan_lines_1_status by blast
  qed
  with p show ?thesis by blast
qed

text \<open>
  C5, as amended. Let an instruction line follow the lines \<open>pre\<close> of a source whose
  first scan reported no error, let the second scan of the lines \<open>pre\<close> report no
  error either, and let \<^verbatim>\<open>&S\<close> be an operand of the instruction, with \<^verbatim>\<open>S\<close> found in
  the table and not external. When the second scan reaches the instruction its
  instruction counter is the address of the instruction's first word, the initial
  loading address plus the number of code words of the lines \<open>pre\<close>; and after the
  second scan of the whole source the word of the operand, which is the word after
  the instruction's first word, has the ARE field A and, in the bits 3 to 23 read as
  a signed number of 21 bits, \<^verbatim>\<open>long_to_s21b\<close> of the address of \<^verbatim>\<open>S\<close> minus that
  instruction counter.
\<close>

theorem relative_operand_word:
  assumes "run_1st_scan (pre @ line # post) [] [] intlz_symbt = (ALL_GOOD, code, data, table)"
    and "fst (run_2nd_scan pre code table ALL_GOOD []) \<noteq> INP_ERROR"
    and "statement_of line = Some (key_word, arg_line)"
    and "find_ass_inst key_word \<noteq> None"
    and "CHR ''&'' # S \<in> set (operands arg_line)"
    and "symb_lookup table S = Some symb" and "\<not> is_extern symb"
  shows "IC (snd (run_2nd_scan pre code table ALL_GOOD []))
           = INITIAL_LOAD_ADSS + of_nat (code_size pre)
     \<and> code_img (snd (run_2nd_scan (pre @ line # post) code table ALL_GOOD []))
           ! (code_size pre + 1) AND ARE = ARE_A_set
     \<and> signed_take_bit 20
         (drop_bit 3 (code_img (snd (run_2nd_scan (pre @ line # post) code table ALL_GOOD []))
                        ! (code_size pre + 1)))
         = long_to_s21b (get_symb_adss symb - (INITIAL_LOAD_ADSS + of_nat (code_size pre)))"
proof -
  let ?src = "pre @ line # post"
  let ?st0 = "\<lparr>code_img = code, curr_word = 0, IC = INITIAL_LOAD_ADSS, ext_list = [],
               symb_tab = table\<rparr>"
  obtain d1 t1 where r1: "scan_lines_1 ?src ALL_GOOD [] [] intlz_symbt = (ALL_GOOD, code, d1, t1)"
    using assms(1) by (auto simp add: run_1st_scan_def split: prod.splits)
  from scan_lines_1_line [OF r1] obtain c0 d0 t0 st0 c0' d0' t0'
    where "proc_line_1 line (Some c0) (Some d0) t0 = (st0, c0', d0', t0')" and "st0 \<noteq> INP_ERROR"
    by blast
  from proc_line_1_relative_first [OF this assms(3,4,5)] obtain rest
    where gt: "get_token arg_line = (CHR ''&'' # S, rest)" ..
  from scan_lines_1_size [OF r1]
  have len: "length code = code_size ?src" and short: "\<forall>l \<in> set ?src. length l \<le> MAX_LINE_LEN"
    by simp_all
  obtain s st where p: "scan_lines_2 pre ALL_GOOD ?st0 = (s, st)"
    by (cases "scan_lines_2 pre ALL_GOOD ?st0") auto
  with assms(2) scan_lines_2_status [of pre ALL_GOOD ?st0] have s: "s = ALL_GOOD"
    by (auto simp add: run_2nd_scan_def)
  have inst: "inst_size line = 1 + sum_list (map opnd_size (operands arg_line))"
    using assms(3,4) by (simp add: inst_size_def)
  have rc: "reg_check (CHR ''&'' # S) = None"
    by (simp add: reg_check_def split: list.splits)
  have "operands arg_line = (CHR ''&'' # S) # operands rest"
    using gt operands_opnd [of arg_line "CHR ''&'' # S" rest] by simp
  with inst rc have two: "2 \<le> inst_size line"
    by (simp add: opnd_size_def)
  have sz: "curr_word ?st0 + code_size pre \<le> length (code_img ?st0)"
    using len by (simp add: code_size_append)
  have short_pre: "\<forall>l \<in> set pre. length l \<le> MAX_LINE_LEN"
    using short by simp
  have ic0: "IC ?st0 = INITIAL_LOAD_ADSS + of_nat (curr_word ?st0)" by simp
  from scan_lines_2_good [OF p [unfolded s] short_pre sz ic0]
  have cw: "curr_word st = code_size pre"
    and ic: "IC st = INITIAL_LOAD_ADSS + of_nat (code_size pre)"
    and lc: "length (code_img st) = length code"
    by simp_all
  have room: "curr_word st + 1 < length (code_img st)"
    using cw lc len two by (simp add: code_size_append code_size_def)
  have "map_option (\<lambda>symb. symb\<lparr>is_entry := True\<rparr>) (symb_lookup (symb_tab st) S)
      = map_option (\<lambda>symb. symb\<lparr>is_entry := True\<rparr>) (symb_lookup table S)"
    using scan_lines_2_lookup [of pre ALL_GOOD ?st0 S] p by simp
  with assms(6) obtain symb' where l': "symb_lookup (symb_tab st) S = Some symb'"
    and same: "symb'\<lparr>is_entry := True\<rparr> = symb\<lparr>is_entry := True\<rparr>"
    by auto
  from same have "rep_word (symb'\<lparr>is_entry := True\<rparr>) = rep_word (symb\<lparr>is_entry := True\<rparr>)"
    and "is_extern (symb'\<lparr>is_entry := True\<rparr>) = is_extern (symb\<lparr>is_entry := True\<rparr>)"
    by simp_all
  then have rw: "get_symb_adss symb' = get_symb_adss symb" and ne': "\<not> is_extern symb'"
    using assms(7) by (simp_all add: get_symb_adss_def)
  let ?w = "set_word_field ARE
      (set_word_field NON_ARE uninit_word (long_to_s21b (get_symb_adss symb - IC st)) 3)
      ARE_A_set 0"
  from proc_inst_2_relative [OF gt l' ne' room, of True]
  have r1: "curr_word st + 2 \<le> curr_word (snd (proc_inst_2 arg_line True True st))"
    and r2: "take (curr_word st + 2) (code_img (snd (proc_inst_2 arg_line True True st)))
        = take (curr_word st + 2) ((code_img st)[curr_word st + 1 := ?w])"
    by (simp_all add: rw)
  from assms(4) obtain inst where fi: "find_ass_inst key_word = Some inst" by auto
  from find_ass_inst_name [OF fi] have nd: "hd key_word \<noteq> CHR ''.''" by simp
  have "proc_line_2 line True True st = proc_key_word_2 key_word arg_line True True st"
    using assms(3)
    by (auto simp add: proc_line_2_def statement_of_def split: if_splits prod.splits)
  then have pl: "proc_line_2 line True True st = proc_inst_2 arg_line True True st"
    using fi nd by (simp add: proc_key_word_2_def)
  obtain res s1 where p1: "proc_inst_2 arg_line True True st = (res, s1)"
    by (cases "proc_inst_2 arg_line True True st") auto
  from short have sl: "length line \<le> MAX_LINE_LEN" by simp
  have fin: "snd (run_2nd_scan ?src code table ALL_GOOD [])
      = snd (scan_lines_2 post (if res = INP_ERROR then INP_ERROR else ALL_GOOD) s1)"
    using p s sl pl p1
    by (simp add: run_2nd_scan_def scan_lines_2_append get_line_def)
  from r1 p1 have k: "curr_word st + 2 \<le> curr_word s1" by simp
  have "take (curr_word st + 2) (code_img (snd (run_2nd_scan ?src code table ALL_GOOD [])))
      = take (curr_word st + 2) (code_img s1)"
    unfolding fin by (rule scan_lines_2_below [OF k])
  also have "\<dots> = take (curr_word st + 2) ((code_img st)[curr_word st + 1 := ?w])"
    using r2 p1 by simp
  finally have "take (curr_word st + 2) (code_img (snd (run_2nd_scan ?src code table ALL_GOOD [])))
        ! (curr_word st + 1)
      = take (curr_word st + 2) ((code_img st)[curr_word st + 1 := ?w]) ! (curr_word st + 1)"
    by simp
  then have "code_img (snd (run_2nd_scan ?src code table ALL_GOOD [])) ! (curr_word st + 1) = ?w"
    using room by simp
  then have w: "code_img (snd (run_2nd_scan ?src code table ALL_GOOD [])) ! (code_size pre + 1)
      = set_word_field ARE
          (set_word_field NON_ARE uninit_word
             (long_to_s21b (get_symb_adss symb - (INITIAL_LOAD_ADSS + of_nat (code_size pre)))) 3)
          ARE_A_set 0"
    by (simp add: cw ic)
  have "IC (snd (run_2nd_scan pre code table ALL_GOOD [])) = INITIAL_LOAD_ADSS + of_nat (code_size pre)"
    using p ic by (simp add: run_2nd_scan_def)
  then show ?thesis
    by (simp only: w are_field_of_absolute_word signed_field_of_relative_word simp_thms)
qed

lemma run_1st_jumps:
  "run_1st_scan jumps_source [] [] intlz_symbt = (ALL_GOOD, jumps_code, [], jumps_table)"
  by (simp add: jumps_source_def jumps_code_def jumps_table_def L_code_symb_def E_code_symb_def
      eval_defs fun_eq_iff)

text \<open>
  The jump back of the source \<^verbatim>\<open>L: stop\<close>, \<^verbatim>\<open>jmp &L\<close>, \<^verbatim>\<open>bne &E\<close>, \<^verbatim>\<open>E: stop\<close>: the
  instruction is at the address 101 and \<^verbatim>\<open>L\<close> at the address 100, the distance is
  \<open>- 1\<close>.
\<close>

theorem relative_operand_word_witness:
  "IC (snd (run_2nd_scan [''L: stop''] jumps_code jumps_table ALL_GOOD [])) = 101
   \<and> code_img (snd (run_2nd_scan jumps_source jumps_code jumps_table ALL_GOOD [])) ! 2 AND ARE
       = ARE_A_set
   \<and> signed_take_bit 20
       (drop_bit 3 (code_img (snd (run_2nd_scan jumps_source jumps_code jumps_table ALL_GOOD [])) ! 2))
       = - 1"
proof -
  have src: "jumps_source = [''L: stop''] @ ''jmp &L'' # [''bne &E'', ''E: stop'']"
    by (simp add: jumps_source_def)
  have r1: "run_1st_scan ([''L: stop''] @ ''jmp &L'' # [''bne &E'', ''E: stop'']) [] [] intlz_symbt
      = (ALL_GOOD, jumps_code, [], jumps_table)"
    using run_1st_jumps by (simp only: src)
  have r2: "fst (run_2nd_scan [''L: stop''] jumps_code jumps_table ALL_GOOD []) \<noteq> INP_ERROR"
    by (simp add: jumps_code_def jumps_table_def L_code_symb_def E_code_symb_def eval_defs)
  have so: "statement_of ''jmp &L'' = Some (''jmp'', '' &L'')"
    by (simp add: statement_of_def get_token_def char_defs const_defs)
  have fi: "find_ass_inst ''jmp'' \<noteq> None"
    by (simp add: find_ass_inst_def inst_table_def mk_inst_def)
  have gt: "CHR ''&'' # ''L'' \<in> set (operands '' &L'')"
    by (simp add: operands_def tokens.simps get_token_def char_defs const_defs)
  have lk: "symb_lookup jumps_table ''L'' = Some L_code_symb"
    by (simp add: jumps_table_def symb_lookup_def symb_hash_def char_to_unsigned_def
        SYMBT_HSIZE_def L_code_symb_def E_code_symb_def)
  have ne: "\<not> is_extern L_code_symb"
    by (simp add: L_code_symb_def)
  have so1: "statement_of ''L: stop'' = Some (''stop'', [])"
    by (simp add: statement_of_def get_token_def char_defs const_defs)
  have fi1: "find_ass_inst ''stop'' \<noteq> None"
    by (simp add: find_ass_inst_def inst_table_def mk_inst_def)
  have o1: "operands [] = []"
    by (simp add: operands_def tokens.simps [of "[]"] get_token_def)
  have cs: "code_size [''L: stop''] = 1"
    by (simp add: code_size_def inst_size_def so1 fi1 o1)
  have adss: "get_symb_adss L_code_symb = 100"
    by (simp add: L_code_symb_def get_symb_adss_def)
  have dist: "long_to_s21b (100 - 101) = - 1"
    by (simp add: long_to_s21b_def c_rem_def signed_modulo_int_def)
  note th = relative_operand_word [OF r1 r2 so fi gt lk ne, unfolded cs adss]
  have a: "INITIAL_LOAD_ADSS + of_nat (1::nat) = (101 :: Address)"
    by (simp add: INITIAL_LOAD_ADSS_def)
  have b: "(1::nat) + 1 = 2" by simp
  from th show ?thesis
    unfolding a b dist src [symmetric] .
qed

text \<open>
  The claim as it was stated fails for the source \<^verbatim>\<open>jmp NOWHERE\<close>, \<^verbatim>\<open>HERE: jmp &HERE\<close>:
  the first scan reports no error and \<^verbatim>\<open>HERE\<close> is in the table and not external, but
  the second scan reports the unknown symbol of the first line and leaves the code
  image as it is from then on; the word of the operand \<^verbatim>\<open>&HERE\<close>, the word 3 of the
  code image, stays 0, whose ARE field is not A.
\<close>

lemma run_1st_unknown:
  "run_1st_scan unknown_symbol_source [] [] intlz_symbt
     = (ALL_GOOD, [0x24080c, 0, 0x24100c, 0],  [],
        intlz_symbt(symb_hash ''HERE'' := [\<lparr>name = ''HERE'', rep_word = 818, is_extern = False,
           is_entry = False, is_data = False\<rparr>]))"
  by (simp add: unknown_symbol_source_def eval_defs fun_eq_iff)

lemma scan_unknown:
  "scan_as_src_file unknown_symbol_source
     = (INP_ERROR, [0x24080c, 0, 0x24100c, 0],  [], [],
        intlz_symbt(symb_hash ''HERE'' := [\<lparr>name = ''HERE'', rep_word = 818, is_extern = False,
           is_entry = False, is_data = False\<rparr>]))"
  by (simp add: scan_as_src_file_def run_1st_unknown)
     (simp add: unknown_symbol_source_def eval_defs fun_eq_iff)

theorem relative_operand_counterexample:
  "fst (run_1st_scan unknown_symbol_source [] [] intlz_symbt) = ALL_GOOD
   \<and> (case scan_as_src_file unknown_symbol_source of
        (status, code, data, elist, table) \<Rightarrow>
          map_option is_extern (symb_lookup table ''HERE'') = Some False
          \<and> code ! 3 AND ARE \<noteq> ARE_A_set)"
  by (simp add: run_1st_unknown scan_unknown)
     (simp add: symb_lookup_def ARE_def ARE_A_set_def)

end
